theory Spec2Isabelle
  imports
    Main
    "HOL-Library.AList"
    "HOL-Library.List_Lexorder"
    "HOL-Library.Char_ord"
    "HOL-Library.Product_Lexorder"
begin

chapter \<open>Deployer: release lifecycle, secrets vault, credential resolution, provisioning\<close>

text \<open>
  A shallow embedding of the parts of the deployer that its specification makes claims
  about: \<^verbatim>\<open>deployer.js\<close> (release ids, update, rollback, retention),
  \<^verbatim>\<open>services/secrets.js\<close> (the vault), \<^verbatim>\<open>services/secrets-config.js\<close>
  (credential resolution), \<^verbatim>\<open>services/database.js\<close> (provisioning) and the
  \<^verbatim>\<open>.env\<close> parser and serializer.  External collaborators (the clock, the random
  source, the cipher library, git, docker, the database engines) enter as explicit inputs.
\<close>

section \<open>Release version ids (\<^verbatim>\<open>Deployer.generateVersion\<close>)\<close>

text \<open>
  \<^verbatim>\<open>new Date()\<close> is read through its local-time getters only, so a date is the record
  of what those getters return.  \<^verbatim>\<open>getMonth\<close> counts from 0.
\<close>

record jsdate =
  getFullYear :: nat
  getMonth :: nat
  getDate :: nat
  getHours :: nat
  getMinutes :: nat
  getSeconds :: nat
  getMilliseconds :: nat

definition valid_date :: "jsdate \<Rightarrow> bool" where
  "valid_date d \<longleftrightarrow>
     getMonth d < 12 \<and> 1 \<le> getDate d \<and> getDate d \<le> 31 \<and> getHours d < 24 \<and>
     getMinutes d < 60 \<and> getSeconds d < 60 \<and> getMilliseconds d < 1000"

text \<open>The calendar fields down to the second, and the order of two instants of one time zone.\<close>

definition second_of :: "jsdate \<Rightarrow> nat \<times> nat \<times> nat \<times> nat \<times> nat \<times> nat" where
  "second_of d =
     (getFullYear d, getMonth d, getDate d, getHours d, getMinutes d, getSeconds d)"

definition earlier :: "jsdate \<Rightarrow> jsdate \<Rightarrow> bool" where
  "earlier d1 d2 \<longleftrightarrow> (second_of d1, getMilliseconds d1) < (second_of d2, getMilliseconds d2)"

text \<open>\<^verbatim>\<open>String(n)\<close> for a non-negative integer, and \<^verbatim>\<open>padStart\<close>.\<close>

definition digit :: "nat \<Rightarrow> char" where
  "digit n = ''0123456789'' ! n"

fun String_nat :: "nat \<Rightarrow> string" where
  "String_nat n = (if n < 10 then [digit n] else String_nat (n div 10) @ [digit (n mod 10)])"

declare String_nat.simps [simp del]

definition padStart :: "nat \<Rightarrow> char \<Rightarrow> string \<Rightarrow> string" where
  "padStart targetLength c s = replicate (targetLength - length s) c @ s"

definition generateVersion :: "jsdate \<Rightarrow> string" where
  "generateVersion now =
     ''v'' @ String_nat (getFullYear now)
       @ padStart 2 CHR ''0'' (String_nat (getMonth now + 1))
       @ padStart 2 CHR ''0'' (String_nat (getDate now))
       @ ''.''
       @ padStart 2 CHR ''0'' (String_nat (getHours now))
       @ padStart 2 CHR ''0'' (String_nat (getMinutes now))
       @ padStart 2 CHR ''0'' (String_nat (getSeconds now))"

section \<open>Release store and orchestration (\<^verbatim>\<open>deployer.js\<close>)\<close>

text \<open>
  Errors are values.  \<open>Error\<close> is a \<^verbatim>\<open>throw new Error(message)\<close> of the source,
  \<open>ExecError\<close> an \<^verbatim>\<open>execSync\<close> whose command exits non-zero (named by the command),
  \<open>FsError\<close> a rejected file-system call (named by the path), \<open>DecipherError\<close> the
  exception of \<^verbatim>\<open>decipher.final()\<close> or \<^verbatim>\<open>setAuthTag\<close>, and \<open>SyntaxError\<close> the one of
  \<^verbatim>\<open>JSON.parse\<close>.
\<close>

datatype error =
    Error string
  | ExecError string
  | FsError string
  | DecipherError
  | SyntaxError

text \<open>
  The project directory.  \<open>releases\<close> is the listing of \<^verbatim>\<open>releases/\<close>, whose entries are
  the release directories.  \<open>current\<close> is the target of the symlink \<^verbatim>\<open>current\<close> (if the
  link exists), as the path below \<^verbatim>\<open>releases/\<close> that the link was made from: the name of
  a release, unless \<^verbatim>\<open>rollback\<close> was given another path as its version.  A compose file is
  represented by the build context it names, \<^verbatim>\<open>./current\<close> or
  \<^verbatim>\<open>./releases/<version>\<close>; \<open>running\<close> lists the container sets that are up, each by
  the build context of the compose file that started it.  Contents of release directories
  and the timestamps of the metadata are not modelled.
\<close>

datatype build_context = CurrentLink | ReleaseDir string

record metadata =
  repo :: string
  branch :: string
  currentVersion :: string
  previousVersion :: "string option"

record project =
  releases :: "string list"
  current :: "string option"
  compose :: build_context
  composeNew :: "build_context option"
  meta :: metadata
  running :: "build_context list"

text \<open>What \<^verbatim>\<open>getContainerStatus\<close> returns.\<close>

datatype container_status = Running | Stopped | NotFound | StatusError

text \<open>
  The collaborators, as inputs: the clock, whether \<^verbatim>\<open>git clone --branch b\<close> succeeds,
  whether the docker commands succeed, and the container statuses that the polls of
  \<^verbatim>\<open>waitForHealth\<close> observe before its timeout elapses.  The rest of the file system is an
  input too: \<open>ancestor n\<close> is the base name of the directory \<open>n\<close> levels above
  \<^verbatim>\<open>releases/\<close>, and \<open>elsewhere n names\<close> tells what is found \<open>n\<close> levels above
  \<^verbatim>\<open>releases/\<close> and then down through \<open>names\<close>, for the places that are neither a
  directory above \<^verbatim>\<open>releases/\<close> nor an entry of it: \<open>None\<close> if nothing is there, otherwise
  the base name of its real path.
\<close>

record world =
  now :: jsdate
  gitClone :: "string \<Rightarrow> bool"
  dockerBuild :: bool
  dockerUp :: bool
  dockerDown :: bool
  healthPolls :: "container_status list"
  ancestor :: "nat \<Rightarrow> string"
  elsewhere :: "nat \<Rightarrow> string list \<Rightarrow> string option"

text \<open>
  \<^verbatim>\<open>while (Date.now() - start < timeout) { if (status === 'running') return true; ... }
  throw new Error('Container health check timeout')\<close>: one list element per poll made
  within the timeout.
\<close>

fun waitForHealth :: "container_status list \<Rightarrow> error + bool" where
  "waitForHealth [] = Inl (Error ''Container health check timeout'')"
| "waitForHealth (status # polls) =
     (if status = Running then Inr True else waitForHealth polls)"

text \<open>\<^verbatim>\<open>config.maxReleases || 5\<close> (a non-negative integer setting, if present).\<close>

definition getMaxReleases :: "nat option \<Rightarrow> nat" where
  "getMaxReleases maxReleases =
     (case maxReleases of None \<Rightarrow> 5 | Some n \<Rightarrow> if n = 0 then 5 else n)"

text \<open>
  \<^verbatim>\<open>const sortedReleases = releases.sort().reverse()\<close>: the default sort compares the
  names as strings, code unit by code unit.
\<close>

definition sortedReleases :: "string list \<Rightarrow> string list" where
  "sortedReleases rs = rev (sort rs)"

text \<open>\<^verbatim>\<open>fs.remove(path.join(releasesDir, r))\<close>; the symlink \<^verbatim>\<open>current\<close> is not touched.\<close>

definition remove_release :: "string \<Rightarrow> project \<Rightarrow> project" where
  "remove_release r p = p\<lparr>releases := removeAll r (releases p)\<rparr>"

text \<open>
  \<^verbatim>\<open>for (let i = MAX_RELEASES; i < sortedReleases.length; i++) fs.remove(sortedReleases[i])\<close>
\<close>

definition cleanupReleases :: "nat \<Rightarrow> project \<Rightarrow> project" where
  "cleanupReleases MAX_RELEASES p =
     fold remove_release (drop MAX_RELEASES (sortedReleases (releases p))) p"

text \<open>JavaScript truthiness of an optional string option, and \<^verbatim>\<open>a || b\<close>.\<close>

definition truthy :: "string option \<Rightarrow> bool" where
  "truthy v = (case v of None \<Rightarrow> False | Some s \<Rightarrow> s \<noteq> [])"

definition or_else :: "string option \<Rightarrow> string \<Rightarrow> string" where
  "or_else v d = (case v of None \<Rightarrow> d | Some s \<Rightarrow> if s \<noteq> [] then s else d)"

subsection \<open>Paths below the releases directory\<close>

text \<open>\<^verbatim>\<open>s.split('/')\<close>, with the piece read so far in reverse.\<close>

fun segments_from :: "string \<Rightarrow> string \<Rightarrow> string list" where
  "segments_from piece [] = [rev piece]"
| "segments_from piece (c # cs) =
     (if c = CHR ''/'' then rev piece # segments_from [] cs else segments_from (c # piece) cs)"

text \<open>
  \<^verbatim>\<open>path.join(releasesDir, version)\<close> normalizes the joined path: empty segments and
  \<^verbatim>\<open>.\<close> are dropped and \<^verbatim>\<open>..\<close> removes the segment before it.  The result is given
  relative to \<^verbatim>\<open>releases/\<close>: the number of levels above it, and the names that lead down
  from there.  (Above the root of the file system every level is the root.)
\<close>

fun walk :: "nat \<Rightarrow> string list \<Rightarrow> string list \<Rightarrow> nat \<times> string list" where
  "walk ups downs [] = (ups, downs)"
| "walk ups downs (seg # segs) =
     (if seg = [] \<or> seg = ''.'' then walk ups downs segs
      else if seg = ''..'' then
        (if downs = [] then walk (Suc ups) [] segs else walk ups (butlast downs) segs)
      else walk ups (downs @ [seg]) segs)"

definition resolve :: "string \<Rightarrow> nat \<times> string list" where
  "resolve version = walk 0 [] (segments_from [] version)"

text \<open>
  \<^verbatim>\<open>fs.realpath(path.join(releasesDir, version))\<close>, by the base name of its result, and
  \<open>None\<close> when it rejects because nothing is there; \<^verbatim>\<open>fs.pathExists\<close> of the same path.
  The releases directory and the directories above it exist.
\<close>

definition realpath_under :: "world \<Rightarrow> project \<Rightarrow> string \<Rightarrow> string option" where
  "realpath_under w p version =
     (case resolve version of
        (0, []) \<Rightarrow> Some ''releases''
      | (Suc n, []) \<Rightarrow> Some (ancestor w (Suc n))
      | (0, [name]) \<Rightarrow> if name \<in> set (releases p) then Some name else None
      | (ups, downs) \<Rightarrow> elsewhere w ups downs)"

definition pathExists_under :: "world \<Rightarrow> project \<Rightarrow> string \<Rightarrow> bool" where
  "pathExists_under w p version \<longleftrightarrow> realpath_under w p version \<noteq> None"

text \<open>
  What \<^verbatim>\<open>fs.readdir\<close> can list: a name is not empty, not \<^verbatim>\<open>.\<close> or \<^verbatim>\<open>..\<close>, and has no
  slash.
\<close>

definition plain_name :: "string \<Rightarrow> bool" where
  "plain_name r \<longleftrightarrow> r \<noteq> [] \<and> r \<noteq> ''.'' \<and> r \<noteq> ''..'' \<and> CHR ''/'' \<notin> set r"

subsection \<open>Rollback\<close>

datatype rollback_outcome =
    RollbackProjectNotFound
  | NoPreviousVersion
  | VersionNotFound string
  | RolledBack string

text \<open>
  The head of \<^verbatim>\<open>rollback\<close>, up to the existence check of the target: the outcomes
  other than \<open>RolledBack\<close> are its early returns (\<^verbatim>\<open>spinner.fail(...); return\<close>).
  \<^verbatim>\<open>sortedReleases[1]\<close> is read only when the list has at least two elements.
\<close>

definition rollback_target :: "world \<Rightarrow> string option \<Rightarrow> project \<Rightarrow> rollback_outcome" where
  "rollback_target w version p =
     (let sorted = sortedReleases (releases p) in
      if length sorted < 2 then NoPreviousVersion
      else let targetVersion = or_else version (sorted ! 1) in
        if \<not> pathExists_under w p targetVersion then VersionNotFound targetVersion
        else RolledBack targetVersion)"

text \<open>
  The whole of \<^verbatim>\<open>rollback\<close>: both forms of build context in
  \<^verbatim>\<open>docker-compose.yml\<close> are rewritten to the target, the containers are taken down,
  rebuilt and started, the symlink is replaced, the metadata updated, and the health gate
  awaited.  An exception leaves the state as it is at that point.
\<close>

definition rollback ::
  "world \<Rightarrow> string option \<Rightarrow> project option \<Rightarrow> (error + rollback_outcome) \<times> project option" where
  "rollback w version dir =
     (case dir of
        None \<Rightarrow> (Inr RollbackProjectNotFound, None)
      | Some p \<Rightarrow>
         (case rollback_target w version p of
            RolledBack targetVersion \<Rightarrow>
              let p1 = p\<lparr>compose := ReleaseDir targetVersion\<rparr> in
              if \<not> dockerDown w then (Inl (ExecError ''docker compose down''), Some p1)
              else let p2 = p1\<lparr>running := []\<rparr> in
              if \<not> dockerBuild w then (Inl (ExecError ''docker compose build''), Some p2)
              else if \<not> dockerUp w then (Inl (ExecError ''docker compose up -d''), Some p2)
              else let p3 = p2\<lparr>running := [compose p2]\<rparr>;
                       p4 = p3\<lparr>current := Some targetVersion\<rparr>;
                       p5 = p4\<lparr>meta := (meta p4)\<lparr>currentVersion := targetVersion\<rparr>\<rparr> in
              (case waitForHealth (healthPolls w) of
                 Inl e \<Rightarrow> (Inl e, Some p5)
               | Inr _ \<Rightarrow> (Inr (RolledBack targetVersion), Some p5))
          | early \<Rightarrow> (Inr early, Some p)))"

text \<open>
  In the words of the specification: the release immediately preceding \<open>c\<close> in id order,
  that is, the greatest release id below \<open>c\<close>.
\<close>

definition preceding_release :: "string list \<Rightarrow> string \<Rightarrow> string option" where
  "preceding_release rs c =
     (case filter (\<lambda>r. r < c) (sortedReleases rs) of [] \<Rightarrow> None | r # _ \<Rightarrow> Some r)"

subsection \<open>Update\<close>

datatype update_outcome = UpdateProjectNotFound | Updated string

text \<open>
  \<^verbatim>\<open>fs.realpath(path.join(projectDir, 'current'))\<close> rejects when the link is missing or
  dangling.  Its result is used through \<^verbatim>\<open>path.basename\<close> only, so it is given by its
  base name.
\<close>

definition realpath_current :: "world \<Rightarrow> project \<Rightarrow> string option" where
  "realpath_current w p =
     (case current p of
        None \<Rightarrow> None
      | Some c \<Rightarrow> realpath_under w p c)"

text \<open>
  \<^verbatim>\<open>git clone --depth 1 --branch b repo newReleaseDir\<close>: on success the release directory
  exists afterwards; git refuses a destination that exists already.
\<close>

definition clone_release :: "world \<Rightarrow> string \<Rightarrow> string \<Rightarrow> project \<Rightarrow> project option" where
  "clone_release w b newVersion p =
     (if gitClone w b \<and> newVersion \<notin> set (releases p)
      then Some (p\<lparr>releases := releases p @ [newVersion]\<rparr>) else None)"

text \<open>
  The clone with its fallback between \<^verbatim>\<open>main\<close> and \<^verbatim>\<open>master\<close>, taken only when no
  branch was given explicitly.  The result is the project and \<^verbatim>\<open>actualBranch\<close>.
\<close>

definition clone_with_fallback ::
  "world \<Rightarrow> string option \<Rightarrow> string \<Rightarrow> string \<Rightarrow> project \<Rightarrow> error + (project \<times> string)" where
  "clone_with_fallback w optBranch b newVersion p =
     (case clone_release w b newVersion p of
        Some p1 \<Rightarrow> Inr (p1, b)
      | None \<Rightarrow>
          if (b = ''main'' \<or> b = ''master'') \<and> \<not> truthy optBranch then
            (let fallbackBranch = (if b = ''main'' then ''master'' else ''main'') in
             case clone_release w fallbackBranch newVersion p of
               Some p1 \<Rightarrow> Inr (p1, fallbackBranch)
             | None \<Rightarrow> Inl (ExecError ''git clone''))
          else Inl (ExecError ''git clone''))"

text \<open>
  \<^verbatim>\<open>composeContent.replace(/\.\/current/g, `./releases/${newVersion}`)\<close>
\<close>

definition rebind_current :: "string \<Rightarrow> build_context \<Rightarrow> build_context" where
  "rebind_current newVersion c = (case c of CurrentLink \<Rightarrow> ReleaseDir newVersion | ReleaseDir v \<Rightarrow> ReleaseDir v)"

text \<open>
  \<^verbatim>\<open>update\<close>.  Every \<^verbatim>\<open>execSync\<close> and \<^verbatim>\<open>waitForHealth\<close> may throw; the
  \<^verbatim>\<open>catch\<close> block reports and rethrows, so the state returned with an error is the state
  at the point of the throw.
\<close>

definition update ::
  "nat \<Rightarrow> world \<Rightarrow> string option \<Rightarrow> project option \<Rightarrow> (error + update_outcome) \<times> project option" where
  "update MAX_RELEASES w optBranch dir =
     (case dir of
        None \<Rightarrow> (Inr UpdateProjectNotFound, None)
      | Some p \<Rightarrow>
         let newVersion = generateVersion (now w) in
         (case realpath_current w p of
            None \<Rightarrow> (Inl (FsError ''current''), Some p)
          | Some oldRelease \<Rightarrow>
             (case clone_with_fallback w optBranch (or_else optBranch (branch (meta p))) newVersion p of
                Inl e \<Rightarrow> (Inl e, Some p)
              | Inr (p1, actualBranch) \<Rightarrow>
                 let p2 = p1\<lparr>composeNew := Some (rebind_current newVersion (compose p1))\<rparr> in
                 if \<not> dockerBuild w then
                   (Inl (ExecError ''docker compose -f docker-compose.new.yml build''), Some p2)
                 else if \<not> dockerUp w then
                   (Inl (ExecError ''docker compose -f docker-compose.new.yml up -d''), Some p2)
                 else
                   let p3 = p2\<lparr>running := running p2 @ [rebind_current newVersion (compose p1)]\<rparr> in
                   (case waitForHealth (healthPolls w) of
                      Inl e \<Rightarrow> (Inl e, Some p3)
                    | Inr _ \<Rightarrow>
                       let p4 = p3\<lparr>current := Some newVersion\<rparr>;
                           p5 = p4\<lparr>compose := rebind_current newVersion (compose p1), composeNew := None\<rparr> in
                       if \<not> dockerDown w then
                         (Inl (ExecError ''docker compose down --remove-orphans''), Some p5)
                       else
                         let p6 = p5\<lparr>running := []\<rparr> in
                         if \<not> dockerUp w then (Inl (ExecError ''docker compose up -d''), Some p6)
                         else
                           let p7 = p6\<lparr>running := [compose p6]\<rparr>;
                               p8 = p7\<lparr>meta := (meta p7)\<lparr>currentVersion := newVersion,
                                      previousVersion := Some oldRelease, branch := actualBranch\<rparr>\<rparr>
                           in (Inr (Updated newVersion), Some (cleanupReleases MAX_RELEASES p8))))))"

section \<open>Secrets vault (\<^verbatim>\<open>services/secrets.js\<close>)\<close>

text \<open>A byte is a \<^typ>\<open>char\<close> (eight bits); a \<^verbatim>\<open>Buffer\<close> is a list of bytes.\<close>

type_synonym byte = char
type_synonym buffer = "byte list"

text \<open>The values \<^verbatim>\<open>JSON.parse\<close> returns.  An object is the list of its entries.\<close>

datatype json =
    JNull
  | JBool bool
  | JNum int
  | JStr string
  | JArr "json list"
  | JObj "(string \<times> json) list"

definition KEY_LENGTH :: nat where "KEY_LENGTH = 32"
definition IV_LENGTH :: nat where "IV_LENGTH = 16"
definition AUTH_TAG_LENGTH :: nat where "AUTH_TAG_LENGTH = 16"
definition SALT_LENGTH :: nat where "SALT_LENGTH = 64"

text \<open>
  The library functions the vault calls, as parameters: one byte of
  \<^verbatim>\<open>crypto.randomBytes\<close> from a random source of type \<open>'r\<close>;
  \<^verbatim>\<open>crypto.pbkdf2Sync(password, salt, iterations, keylen, 'sha256')\<close>; the
  \<^verbatim>\<open>aes-256-gcm\<close> cipher (key, iv, plaintext to ciphertext and tag) and decipher (key, iv,
  tag, ciphertext to plaintext, \<open>None\<close> where \<^verbatim>\<open>setAuthTag\<close> or \<^verbatim>\<open>final()\<close> throws); the
  hex, base64 and utf8 codecs of \<^verbatim>\<open>Buffer\<close>; \<^verbatim>\<open>JSON.stringify\<close> and \<^verbatim>\<open>JSON.parse\<close>
  (\<open>None\<close> where it throws).
\<close>

record 'r library =
  randomByte :: "'r \<Rightarrow> byte \<times> 'r"
  pbkdf2Sync :: "buffer \<Rightarrow> buffer \<Rightarrow> nat \<Rightarrow> nat \<Rightarrow> buffer"
  gcmEncrypt :: "buffer \<Rightarrow> buffer \<Rightarrow> buffer \<Rightarrow> buffer \<times> buffer"
  gcmDecrypt :: "buffer \<Rightarrow> buffer \<Rightarrow> buffer \<Rightarrow> buffer \<Rightarrow> buffer option"
  hexEncode :: "buffer \<Rightarrow> string"
  hexDecode :: "string \<Rightarrow> buffer"
  base64Encode :: "buffer \<Rightarrow> string"
  base64Decode :: "string \<Rightarrow> buffer"
  utf8Encode :: "string \<Rightarrow> buffer"
  utf8Decode :: "buffer \<Rightarrow> string"
  JSON_stringify :: "json \<Rightarrow> string"
  JSON_parse :: "string \<Rightarrow> json option"

fun randomBytes :: "'r library \<Rightarrow> nat \<Rightarrow> 'r \<Rightarrow> buffer \<times> 'r" where
  "randomBytes L 0 r = ([], r)"
| "randomBytes L (Suc n) r =
     (case randomByte L r of (b, r1) \<Rightarrow>
        (case randomBytes L n r1 of (bs, r2) \<Rightarrow> (b # bs, r2)))"

text \<open>
  The registry directory as the vault sees it: the content of \<^verbatim>\<open>.master-key\<close> (if the
  file exists), the files of \<^verbatim>\<open>secrets/\<close> by name, the paths on which
  \<^verbatim>\<open>fs.writeFile\<close> rejects, and the random source.
\<close>

record 'r vault =
  keyFile :: "string option"
  secretFiles :: "(string \<times> string) list"
  unwritable :: "string list"
  entropy :: 'r

definition ensureKey :: "'r library \<Rightarrow> 'r vault \<Rightarrow> (error + string) \<times> 'r vault" where
  "ensureKey L v =
     (case keyFile v of
        Some key \<Rightarrow> (Inr key, v)
      | None \<Rightarrow>
         (case randomBytes L KEY_LENGTH (entropy v) of (bytes, r) \<Rightarrow>
            let key = hexEncode L bytes; v1 = v\<lparr>entropy := r\<rparr> in
            if ''.master-key'' \<in> set (unwritable v1) then (Inl (FsError ''.master-key''), v1)
            else (Inr key, v1\<lparr>keyFile := Some key\<rparr>)))"

definition deriveKey :: "'r library \<Rightarrow> string \<Rightarrow> buffer \<Rightarrow> buffer" where
  "deriveKey L masterKey salt = pbkdf2Sync L (hexDecode L masterKey) salt 100000 KEY_LENGTH"

text \<open>
  \<^verbatim>\<open>encrypt\<close>.  The ciphertext passes through base64 text
  (\<^verbatim>\<open>cipher.update(.., 'utf8', 'base64') + cipher.final('base64')\<close>, then
  \<^verbatim>\<open>Buffer.from(encrypted, 'base64')\<close>) before it is appended to the header.
\<close>

definition encrypt :: "'r library \<Rightarrow> 'r vault \<Rightarrow> json \<Rightarrow> (error + string) \<times> 'r vault" where
  "encrypt L v data =
     (case ensureKey L v of
        (Inl e, v1) \<Rightarrow> (Inl e, v1)
      | (Inr masterKey, v1) \<Rightarrow>
         (case randomBytes L SALT_LENGTH (entropy v1) of (salt, r1) \<Rightarrow>
            let key = deriveKey L masterKey salt in
            (case randomBytes L IV_LENGTH r1 of (iv, r2) \<Rightarrow>
               let plaintext = JSON_stringify L data in
               (case gcmEncrypt L key iv (utf8Encode L plaintext) of (ciphertext, authTag) \<Rightarrow>
                  let encrypted = base64Encode L ciphertext in
                  (Inr (base64Encode L (salt @ iv @ authTag @ base64Decode L encrypted)),
                   v1\<lparr>entropy := r2\<rparr>)))))"

text \<open>\<^verbatim>\<open>buf.subarray(start, end)\<close> and \<^verbatim>\<open>buf.subarray(start)\<close>; both clamp to the buffer.\<close>

definition subarray :: "buffer \<Rightarrow> nat \<Rightarrow> nat \<Rightarrow> buffer" where
  "subarray data start end = take (end - start) (drop start data)"

definition subarray_from :: "buffer \<Rightarrow> nat \<Rightarrow> buffer" where
  "subarray_from data start = drop start data"

text \<open>The \<^verbatim>\<open>// Extract components\<close> block of \<^verbatim>\<open>decrypt\<close>: salt, iv, tag, ciphertext.\<close>

definition extract_components :: "buffer \<Rightarrow> buffer \<times> buffer \<times> buffer \<times> buffer" where
  "extract_components data =
     (subarray data 0 SALT_LENGTH,
      subarray data SALT_LENGTH (SALT_LENGTH + IV_LENGTH),
      subarray data (SALT_LENGTH + IV_LENGTH) (SALT_LENGTH + IV_LENGTH + AUTH_TAG_LENGTH),
      subarray_from data (SALT_LENGTH + IV_LENGTH + AUTH_TAG_LENGTH))"

definition decrypt :: "'r library \<Rightarrow> 'r vault \<Rightarrow> string \<Rightarrow> (error + json) \<times> 'r vault" where
  "decrypt L v encryptedData =
     (case ensureKey L v of
        (Inl e, v1) \<Rightarrow> (Inl e, v1)
      | (Inr masterKey, v1) \<Rightarrow>
         (case extract_components (base64Decode L encryptedData) of
            (salt, iv, authTag, encrypted) \<Rightarrow>
              let key = deriveKey L masterKey salt in
              (case gcmDecrypt L key iv authTag encrypted of
                 None \<Rightarrow> (Inl DecipherError, v1)
               | Some decrypted \<Rightarrow>
                  (case JSON_parse L (utf8Decode L decrypted) of
                     None \<Rightarrow> (Inl SyntaxError, v1)
                   | Some x \<Rightarrow> (Inr x, v1)))))"

definition store :: "'r library \<Rightarrow> 'r vault \<Rightarrow> string \<Rightarrow> json \<Rightarrow> (error + unit) \<times> 'r vault" where
  "store L v name data =
     (case encrypt L v data of
        (Inl e, v1) \<Rightarrow> (Inl e, v1)
      | (Inr encrypted, v1) \<Rightarrow>
         let filePath = name @ ''.enc'' in
         if filePath \<in> set (unwritable v1) then (Inl (FsError filePath), v1)
         else (Inr (), v1\<lparr>secretFiles := AList.update filePath encrypted (secretFiles v1)\<rparr>))"

text \<open>\<^verbatim>\<open>retrieve\<close> returns \<^verbatim>\<open>null\<close> for a name that has no file.\<close>

definition retrieve :: "'r library \<Rightarrow> 'r vault \<Rightarrow> string \<Rightarrow> (error + json) \<times> 'r vault" where
  "retrieve L v name =
     (case map_of (secretFiles v) (name @ ''.enc'') of
        None \<Rightarrow> (Inr JNull, v)
      | Some encrypted \<Rightarrow> decrypt L v encrypted)"

text \<open>\<^verbatim>\<open>f.endsWith(s)\<close>, and \<^verbatim>\<open>f.replace(pat, rep)\<close> for a string pattern (first occurrence).\<close>

definition endsWith :: "'a list \<Rightarrow> 'a list \<Rightarrow> bool" where
  "endsWith f s \<longleftrightarrow> length s \<le> length f \<and> drop (length f - length s) f = s"

fun replace_first :: "string \<Rightarrow> string \<Rightarrow> string \<Rightarrow> string" where
  "replace_first pat rep [] = (if pat = [] then rep else [])"
| "replace_first pat rep (c # cs) =
     (if take (length pat) (c # cs) = pat then rep @ drop (length pat) (c # cs)
      else c # replace_first pat rep cs)"

definition list_secrets :: "'r vault \<Rightarrow> string list" where
  "list_secrets v =
     map (replace_first ''.enc'' '''') (filter (\<lambda>f. endsWith f ''.enc'') (map fst (secretFiles v)))"

text \<open>
  The object \<^verbatim>\<open>secrets = {}\<close> of \<^verbatim>\<open>rotateKey\<close> is the list of its own properties in the
  order of their creation.  \<^verbatim>\<open>secrets[name] = data\<close> creates or overwrites an own
  property, except for the name \<^verbatim>\<open>__proto__\<close>, which is the accessor of
  \<^verbatim>\<open>Object.prototype\<close>: that assignment creates no own property.
\<close>

definition assign_property :: "(string \<times> json) list \<Rightarrow> string \<Rightarrow> json \<Rightarrow> (string \<times> json) list" where
  "assign_property obj name data = (if name = ''__proto__'' then obj else AList.update name data obj)"

text \<open>
  \<^verbatim>\<open>Object.entries(obj)\<close>: the properties whose names are array indices (canonical decimal
  numerals below \<open>2\<^sup>3\<^sup>2 - 1\<close>) come first, in ascending numeric order, then the others in the
  order of their creation.
\<close>

definition decimal_value :: "string \<Rightarrow> nat" where
  "decimal_value s = foldl (\<lambda>n c. 10 * n + (of_char c - 48)) 0 s"

definition isArrayIndex :: "string \<Rightarrow> bool" where
  "isArrayIndex s \<longleftrightarrow>
     s \<noteq> [] \<and> list_all (\<lambda>c. CHR ''0'' \<le> c \<and> c \<le> CHR ''9'') s
     \<and> (s = ''0'' \<or> hd s \<noteq> CHR ''0'') \<and> decimal_value s < 4294967295"

definition Object_entries :: "(string \<times> json) list \<Rightarrow> (string \<times> json) list" where
  "Object_entries obj =
     sort_key (\<lambda>entry. decimal_value (fst entry)) (filter (\<lambda>entry. isArrayIndex (fst entry)) obj)
     @ filter (\<lambda>entry. \<not> isArrayIndex (fst entry)) obj"

text \<open>The two loops of \<^verbatim>\<open>rotateKey\<close>.\<close>

fun retrieve_each ::
  "'r library \<Rightarrow> string list \<Rightarrow> (string \<times> json) list \<Rightarrow> 'r vault
     \<Rightarrow> (error + (string \<times> json) list) \<times> 'r vault" where
  "retrieve_each L [] secrets v = (Inr secrets, v)"
| "retrieve_each L (name # names) secrets v =
     (case retrieve L v name of
        (Inl e, v1) \<Rightarrow> (Inl e, v1)
      | (Inr data, v1) \<Rightarrow> retrieve_each L names (assign_property secrets name data) v1)"

fun store_each ::
  "'r library \<Rightarrow> (string \<times> json) list \<Rightarrow> 'r vault \<Rightarrow> (error + unit) \<times> 'r vault" where
  "store_each L [] v = (Inr (), v)"
| "store_each L ((name, data) # entries) v =
     (case store L v name data of
        (Inl e, v1) \<Rightarrow> (Inl e, v1)
      | (Inr _, v1) \<Rightarrow> store_each L entries v1)"

text \<open>
  \<^verbatim>\<open>rotateKey\<close>: read every secret under the current key into the object, write the new
  key file, then store every entry of the object again (which encrypts under whatever the
  key file holds).
\<close>

definition rotateKey :: "'r library \<Rightarrow> 'r vault \<Rightarrow> (error + bool) \<times> 'r vault" where
  "rotateKey L v =
     (case retrieve_each L (list_secrets v) [] v of
        (Inl e, v1) \<Rightarrow> (Inl e, v1)
      | (Inr secrets, v1) \<Rightarrow>
         (case randomBytes L KEY_LENGTH (entropy v1) of (bytes, r) \<Rightarrow>
            let newKey = hexEncode L bytes; v2 = v1\<lparr>entropy := r\<rparr> in
            if ''.master-key'' \<in> set (unwritable v2) then (Inl (FsError ''.master-key''), v2)
            else
              (case store_each L (Object_entries secrets) (v2\<lparr>keyFile := Some newKey\<rparr>) of
                 (Inl e, v3) \<Rightarrow> (Inl e, v3)
               | (Inr _, v3) \<Rightarrow> (Inr True, v3))))"

text \<open>
  What the vault relies on from the library: the decipher inverts the cipher under the
  same key, iv and tag; the tag has \<^verbatim>\<open>AUTH_TAG_LENGTH\<close> bytes; base64 and utf8 decoding
  invert the encoding.
\<close>

definition library_laws :: "'r library \<Rightarrow> bool" where
  "library_laws L \<longleftrightarrow>
     (\<forall>key iv pt. gcmDecrypt L key iv (snd (gcmEncrypt L key iv pt)) (fst (gcmEncrypt L key iv pt)) = Some pt)
   \<and> (\<forall>key iv pt. length (snd (gcmEncrypt L key iv pt)) = AUTH_TAG_LENGTH)
   \<and> (\<forall>b. base64Decode L (base64Encode L b) = b)
   \<and> (\<forall>s. utf8Decode L (utf8Encode L s) = s)"

text \<open>A value is JSON-serializable when parsing its serialization gives it back.\<close>

definition json_serializable :: "'r library \<Rightarrow> json \<Rightarrow> bool" where
  "json_serializable L x \<longleftrightarrow> JSON_parse L (JSON_stringify L x) = Some x"

text \<open>
  The blob \<^verbatim>\<open>encrypt\<close> emits for the master key \<open>k\<close>, a salt and an iv: an auxiliary
  name for the expression in \<open>encrypt\<close>, used to state what \<open>decrypt\<close> receives.
\<close>

definition blob_of :: "'r library \<Rightarrow> string \<Rightarrow> buffer \<Rightarrow> buffer \<Rightarrow> json \<Rightarrow> string" where
  "blob_of L k salt iv x =
    base64Encode L (salt @ iv @ snd (gcmEncrypt L (deriveKey L k salt) iv (utf8Encode L (JSON_stringify L x)))
        @ base64Decode L (base64Encode L (fst (gcmEncrypt L (deriveKey L k salt) iv (utf8Encode L (JSON_stringify L x))))))"

section \<open>Credential resolution (\<^verbatim>\<open>services/secrets-config.js\<close>)\<close>

text \<open>
  \<^verbatim>\<open>x?.name\<close> for the property names read here (none of them a built-in property of a
  string or an array), and the truthiness of what it yields; \<open>None\<close> is \<^verbatim>\<open>undefined\<close>.
\<close>

definition property :: "json \<Rightarrow> string \<Rightarrow> json option" where
  "property x name = (case x of JObj entries \<Rightarrow> map_of entries name | _ \<Rightarrow> None)"

definition truthy_json :: "json option \<Rightarrow> bool" where
  "truthy_json v =
     (case v of
        None \<Rightarrow> False
      | Some JNull \<Rightarrow> False
      | Some (JBool b) \<Rightarrow> b
      | Some (JNum n) \<Rightarrow> n \<noteq> 0
      | Some (JStr s) \<Rightarrow> s \<noteq> []
      | Some (JArr _) \<Rightarrow> True
      | Some (JObj _) \<Rightarrow> True)"

definition value_of :: "json option \<Rightarrow> json" where
  "value_of v = (case v of None \<Rightarrow> JNull | Some x \<Rightarrow> x)"

text \<open>
  The state of a \<^verbatim>\<open>SecretsConfig\<close>: its vault, the file \<^verbatim>\<open>config.json\<close> and the flag
  \<^verbatim>\<open>_legacyWarningShown\<close>.  The file is \<open>None\<close> when it does not exist; otherwise it is
  what \<^verbatim>\<open>fs.readJson\<close> makes of it: the parsed contents, or the error it rejects with
  when the file cannot be read or is not JSON.  \<^verbatim>\<open>process.env\<close> is a map.
\<close>

record 'r secrets_config =
  secrets :: "'r vault"
  configFile :: "(error + json) option"
  legacyWarningShown :: bool

type_synonym process_env = "string \<Rightarrow> string option"

text \<open>
  \<^verbatim>\<open>loadLegacyConfig\<close>: \<^verbatim>\<open>null\<close> (here \<open>Inr None\<close>) without the file, otherwise the result
  of \<^verbatim>\<open>fs.readJson\<close>, whose rejection is not caught.
\<close>

definition loadLegacyConfig :: "'r secrets_config \<Rightarrow> error + json option" where
  "loadLegacyConfig sc =
     (case configFile sc of
        None \<Rightarrow> Inr None
      | Some (Inl e) \<Rightarrow> Inl e
      | Some (Inr config) \<Rightarrow> Inr (Some config))"

definition env_credentials :: "process_env \<Rightarrow> json" where
  "env_credentials env =
     JObj [(''email'', JStr (or_else (env ''NPM_EMAIL'') [])),
           (''password'', JStr (or_else (env ''NPM_PASSWORD'') []))]"

definition legacy_credentials :: "json \<Rightarrow> json" where
  "legacy_credentials config =
     JObj [(''email'', value_of (property config ''npmEmail'')),
           (''password'', value_of (property config ''npmPassword''))]"

text \<open>
  \<^verbatim>\<open>getNpmCredentials\<close>; the result \<open>JNull\<close> is \<^verbatim>\<open>null\<close>.  An exception of
  \<^verbatim>\<open>retrieve\<close> is caught and ignored; \<^verbatim>\<open>loadLegacyConfig\<close> is called outside the
  \<^verbatim>\<open>try\<close>, so its exception is the exception of the call.
\<close>

definition getNpmCredentials ::
  "'r library \<Rightarrow> process_env \<Rightarrow> 'r secrets_config \<Rightarrow> (error + json) \<times> 'r secrets_config" where
  "getNpmCredentials L env sc =
     (if truthy (env ''NPM_EMAIL'') \<and> truthy (env ''NPM_PASSWORD'')
      then (Inr (env_credentials env), sc)
      else
        (case retrieve L (secrets sc) ''npm_credentials'' of (r, v1) \<Rightarrow>
           let sc1 = sc\<lparr>secrets := v1\<rparr>;
               encrypted = (case r of Inl e \<Rightarrow> None | Inr x \<Rightarrow> Some x) in
           if (case encrypted of
                 None \<Rightarrow> False
               | Some x \<Rightarrow> truthy_json (property x ''email'') \<and> truthy_json (property x ''password''))
           then (Inr (value_of encrypted), sc1)
           else
             (case loadLegacyConfig sc1 of
                Inl e \<Rightarrow> (Inl e, sc1)
              | Inr None \<Rightarrow> (Inr JNull, sc1)
              | Inr (Some config) \<Rightarrow>
                  if truthy_json (property config ''npmEmail'') \<and> truthy_json (property config ''npmPassword'')
                  then (Inr (legacy_credentials config), sc1\<lparr>legacyWarningShown := True\<rparr>)
                  else (Inr JNull, sc1))))"

definition getCredentialSource ::
  "'r library \<Rightarrow> process_env \<Rightarrow> 'r secrets_config \<Rightarrow> (error + string) \<times> 'r secrets_config" where
  "getCredentialSource L env sc =
     (if truthy (env ''NPM_EMAIL'') \<and> truthy (env ''NPM_PASSWORD'') then (Inr ''env'', sc)
      else
        (case retrieve L (secrets sc) ''npm_credentials'' of (r, v1) \<Rightarrow>
           let sc1 = sc\<lparr>secrets := v1\<rparr>;
               encrypted = (case r of Inl e \<Rightarrow> None | Inr x \<Rightarrow> Some x) in
           if (case encrypted of
                 None \<Rightarrow> False
               | Some x \<Rightarrow> truthy_json (property x ''email'') \<and> truthy_json (property x ''password''))
           then (Inr ''encrypted'', sc1)
           else
             (case loadLegacyConfig sc1 of
                Inl e \<Rightarrow> (Inl e, sc1)
              | Inr None \<Rightarrow> (Inr ''none'', sc1)
              | Inr (Some config) \<Rightarrow>
                  if truthy_json (property config ''npmEmail'') \<and> truthy_json (property config ''npmPassword'')
                  then (Inr ''legacy'', sc1)
                  else (Inr ''none'', sc1))))"

subsection \<open>The chain in the words of the specification\<close>

text \<open>
  Three tiers in order of priority.  A tier satisfies the request when it holds both an
  email and a password; the first tier of the chain that does so wins.  A vault whose
  secret cannot be decrypted and a \<^verbatim>\<open>config.json\<close> that cannot be read or parsed hold
  neither.
\<close>

datatype tier = Override | Encrypted | Legacy

definition chain :: "tier list" where
  "chain = [Override, Encrypted, Legacy]"

definition tier_name :: "tier \<Rightarrow> string" where
  "tier_name t = (case t of Override \<Rightarrow> ''env'' | Encrypted \<Rightarrow> ''encrypted'' | Legacy \<Rightarrow> ''legacy'')"

definition tier_credentials ::
  "'r library \<Rightarrow> process_env \<Rightarrow> 'r secrets_config \<Rightarrow> tier \<Rightarrow> json option" where
  "tier_credentials L env sc t =
     (case t of
        Override \<Rightarrow>
          (case (env ''NPM_EMAIL'', env ''NPM_PASSWORD'') of
             (Some email, Some pw) \<Rightarrow>
               if email \<noteq> [] \<and> pw \<noteq> []
               then Some (JObj [(''email'', JStr email), (''password'', JStr pw)]) else None
           | _ \<Rightarrow> None)
      | Encrypted \<Rightarrow>
          (case fst (retrieve L (secrets sc) ''npm_credentials'') of
             Inr (JObj entries) \<Rightarrow>
               if truthy_json (map_of entries ''email'') \<and> truthy_json (map_of entries ''password'')
               then Some (JObj entries) else None
           | _ \<Rightarrow> None)
      | Legacy \<Rightarrow>
          (case configFile sc of
             Some (Inr (JObj entries)) \<Rightarrow>
               (case (map_of entries ''npmEmail'', map_of entries ''npmPassword'') of
                  (Some email, Some pw) \<Rightarrow>
                    if truthy_json (Some email) \<and> truthy_json (Some pw)
                    then Some (JObj [(''email'', email), (''password'', pw)]) else None
                | _ \<Rightarrow> None)
           | _ \<Rightarrow> None))"

fun first_match :: "(tier \<Rightarrow> json option) \<Rightarrow> tier list \<Rightarrow> (tier \<times> json) option" where
  "first_match holds [] = None"
| "first_match holds (t # ts) =
     (case holds t of Some creds \<Rightarrow> Some (t, creds) | None \<Rightarrow> first_match holds ts)"

section \<open>Database provisioning (\<^verbatim>\<open>services/database.js\<close>)\<close>





















section \<open>The \<^verbatim>\<open>.env\<close> parser and serializer\<close>

text \<open>
  A JavaScript string is the list of its UTF-16 code units; \<open>js\<close> writes an ASCII literal.
\<close>

type_synonym jsstring = "nat list"

definition js :: "string \<Rightarrow> jsstring" where
  "js s = map of_char s"

definition MAX_LINE_LENGTH :: nat where "MAX_LINE_LENGTH = 10000"
definition MAX_KEY_LENGTH :: nat where "MAX_KEY_LENGTH = 256"

text \<open>
  The code units that \<^verbatim>\<open>trim()\<close> strips and \<^verbatim>\<open>\s\<close> matches: tab, line feed, vertical tab,
  form feed, carriage return, space, no-break space, the other space separators, the line
  and paragraph separators and the byte order mark.
\<close>

definition isWhiteSpace :: "nat \<Rightarrow> bool" where
  "isWhiteSpace c \<longleftrightarrow>
     c \<in> set [9, 10, 11, 12, 13, 32, 160, 5760, 8232, 8233, 8239, 8287, 12288, 65279]
     \<or> (8192 \<le> c \<and> c \<le> 8202)"

definition trim :: "jsstring \<Rightarrow> jsstring" where
  "trim s = rev (dropWhile isWhiteSpace (rev (dropWhile isWhiteSpace s)))"

definition startsWith :: "'a list \<Rightarrow> 'a list \<Rightarrow> bool" where
  "startsWith s p \<longleftrightarrow> take (length p) s = p"

text \<open>
  \<^verbatim>\<open>s.split(sep)\<close> for a separator of one code unit, scanning left to right with the
  piece read so far (in reverse); \<^verbatim>\<open>''.split(sep)\<close> is \<^verbatim>\<open>['']\<close>.
\<close>

fun split_from :: "nat \<Rightarrow> jsstring \<Rightarrow> jsstring \<Rightarrow> jsstring list" where
  "split_from sep piece [] = [rev piece]"
| "split_from sep piece (c # cs) =
     (if c = sep then rev piece # split_from sep [] cs else split_from sep (c # piece) cs)"

definition split :: "nat \<Rightarrow> jsstring \<Rightarrow> jsstring list" where
  "split sep s = split_from sep [] s"

text \<open>\<^verbatim>\<open>s.indexOf(c)\<close>, with \<open>None\<close> for \<^verbatim>\<open>-1\<close>.\<close>

fun indexOf :: "nat \<Rightarrow> jsstring \<Rightarrow> nat option" where
  "indexOf c [] = None"
| "indexOf c (x # xs) = (if x = c then Some 0 else map_option Suc (indexOf c xs))"

text \<open>\<^verbatim>\<open>KEY_REGEX = /^[A-Za-z_][A-Za-z0-9_]*$/\<close>\<close>

definition isKeyStart :: "nat \<Rightarrow> bool" where
  "isKeyStart c \<longleftrightarrow> (65 \<le> c \<and> c \<le> 90) \<or> (97 \<le> c \<and> c \<le> 122) \<or> c = 95"

definition isKeyPart :: "nat \<Rightarrow> bool" where
  "isKeyPart c \<longleftrightarrow> isKeyStart c \<or> (48 \<le> c \<and> c \<le> 57)"

definition KEY_REGEX_test :: "jsstring \<Rightarrow> bool" where
  "KEY_REGEX_test key = (case key of [] \<Rightarrow> False | c # cs \<Rightarrow> isKeyStart c \<and> list_all isKeyPart cs)"

text \<open>
  \<^verbatim>\<open>key.toLowerCase()\<close> as far as the comparison with \<^verbatim>\<open>DANGEROUS_KEYS\<close> can tell: the
  ASCII capitals are the only code units that lower-case to a letter of the three names.
\<close>

definition toLowerCase :: "jsstring \<Rightarrow> jsstring" where
  "toLowerCase s = map (\<lambda>c. if 65 \<le> c \<and> c \<le> 90 then c + 32 else c) s"

definition DANGEROUS_KEYS :: "jsstring list" where
  "DANGEROUS_KEYS = [js ''__proto__'', js ''constructor'', js ''prototype'']"

text \<open>
  \<^verbatim>\<open>s.replace(/ab/g, r)\<close> for a pattern of two code units and a replacement of one, and
  \<^verbatim>\<open>s.replace(/a/g, rep)\<close> for a pattern of one code unit: all matches, left to right,
  without overlap.
\<close>

fun replace_pair :: "nat \<Rightarrow> nat \<Rightarrow> nat \<Rightarrow> jsstring \<Rightarrow> jsstring" where
  "replace_pair a b r (x # y # zs) =
     (if x = a \<and> y = b then r # replace_pair a b r zs else x # replace_pair a b r (y # zs))"
| "replace_pair a b r [x] = [x]"
| "replace_pair a b r [] = []"

definition replace_unit :: "nat \<Rightarrow> jsstring \<Rightarrow> jsstring \<Rightarrow> jsstring" where
  "replace_unit a rep s = concat (map (\<lambda>x. if x = a then rep else [x]) s)"

text \<open>
  The unescaping of a quoted value in \<^verbatim>\<open>parseEnvFile\<close>, in the order of the source:
  \<^verbatim>\<open>\n\<close>, \<^verbatim>\<open>\r\<close>, \<^verbatim>\<open>\t\<close>, the escaped double quote, the escaped single quote, and
  the doubled backslash last.  (92 is the backslash, 34 and 39 the quotes.)
\<close>

definition unescape :: "jsstring \<Rightarrow> jsstring" where
  "unescape v =
     replace_pair 92 92 92
       (replace_pair 92 39 39
         (replace_pair 92 34 34
           (replace_pair 92 116 9
             (replace_pair 92 114 13
               (replace_pair 92 110 10 v)))))"

text \<open>The escaping in \<^verbatim>\<open>serializeEnvFile\<close>: backslash first, then line feed, carriage
  return, tab and the double quote.\<close>

definition escape :: "jsstring \<Rightarrow> jsstring" where
  "escape stringValue =
     replace_unit 34 [92, 34]
       (replace_unit 9 [92, 116]
         (replace_unit 13 [92, 114]
           (replace_unit 10 [92, 110]
             (replace_unit 92 [92, 92] stringValue))))"

text \<open>\<^verbatim>\<open>value.slice(1, -1)\<close>\<close>

definition slice_1_minus_1 :: "jsstring \<Rightarrow> jsstring" where
  "slice_1_minus_1 v = take (length v - 2) (drop 1 v)"

text \<open>
  The body of the loop of \<^verbatim>\<open>parseEnvFile\<close> for one line: \<open>None\<close> is \<^verbatim>\<open>continue\<close>,
  otherwise the key and the value assigned to it.  (35 is \<^verbatim>\<open>#\<close>, 61 is \<^verbatim>\<open>=\<close>.)
\<close>

definition parse_line :: "jsstring \<Rightarrow> (jsstring \<times> jsstring) option" where
  "parse_line line =
     (let trimmed = trim line in
      if trimmed = [] \<or> startsWith trimmed [35] then None
      else if MAX_LINE_LENGTH < length trimmed then None
      else
        let withoutExport = (if startsWith trimmed (js ''export '') then drop 7 trimmed else trimmed) in
        (case indexOf 61 withoutExport of
           None \<Rightarrow> None
         | Some equalIndex \<Rightarrow>
            let key = trim (take equalIndex withoutExport);
                rest = drop (equalIndex + 1) withoutExport in
            if key = [] \<or> MAX_KEY_LENGTH < length key then None
            else if \<not> KEY_REGEX_test key then None
            else if toLowerCase key \<in> set DANGEROUS_KEYS then None
            else
              let v = trim rest in
              if (startsWith v [34] \<and> endsWith v [34]) \<or> (startsWith v [39] \<and> endsWith v [39])
              then Some (key, unescape (slice_1_minus_1 v))
              else Some (key, v)))"

text \<open>
  \<^verbatim>\<open>parseEnvFile\<close>.  The result object is the list of its entries in insertion order;
  \<^verbatim>\<open>env[key] = value\<close> is \<open>AList.update\<close>.  (65279 is the byte order mark, 10 the line
  feed.)
\<close>

definition parseEnvFile :: "jsstring \<Rightarrow> (jsstring \<times> jsstring) list" where
  "parseEnvFile content =
     (if content = [] then []
      else
        let cleanContent = (case content of [] \<Rightarrow> [] | c # cs \<Rightarrow> if c = 65279 then cs else content) in
        fold (\<lambda>line env. case parse_line line of
                 None \<Rightarrow> env
               | Some (key, v) \<Rightarrow> AList.update key v env)
             (split 10 cleanContent) [])"

text \<open>
  \<^verbatim>\<open>needsQuoting\<close>: the value is empty, or contains white space or one of
  \<^verbatim>\<open>#\<close>, \<^verbatim>\<open>$\<close>, the quotes, the backslash, the backtick and \<^verbatim>\<open>!\<close>.
\<close>

definition needsQuoting :: "jsstring \<Rightarrow> bool" where
  "needsQuoting stringValue \<longleftrightarrow>
     stringValue = []
     \<or> list_ex (\<lambda>c. isWhiteSpace c \<or> c \<in> set [35, 36, 34, 39, 92, 96, 33]) stringValue
     \<or> list_ex (\<lambda>c. c \<in> set [10, 13, 9]) stringValue"

text \<open>The line pushed for a key and a string value.\<close>

definition env_line :: "jsstring \<Rightarrow> jsstring \<Rightarrow> jsstring" where
  "env_line key stringValue =
     (if needsQuoting stringValue then key @ [61, 34] @ escape stringValue @ [34]
      else key @ [61] @ stringValue)"

text \<open>
  The body of the loop of \<^verbatim>\<open>serializeEnvFile\<close>.  A value is \<open>None\<close> for \<^verbatim>\<open>null\<close> or
  \<^verbatim>\<open>undefined\<close> and \<open>Some s\<close> for the string \<open>s\<close> (other types of values are not
  modelled).
\<close>

definition serialize_entry :: "jsstring \<times> jsstring option \<Rightarrow> jsstring option" where
  "serialize_entry entry =
     (case entry of (key, v) \<Rightarrow>
        (case v of
           None \<Rightarrow> None
         | Some stringValue \<Rightarrow>
            if toLowerCase key \<in> set DANGEROUS_KEYS then None
            else if \<not> KEY_REGEX_test key then None
            else Some (env_line key stringValue)))"

text \<open>\<^verbatim>\<open>lines.join(sep)\<close>\<close>

fun join :: "jsstring list \<Rightarrow> jsstring \<Rightarrow> jsstring" where
  "join [] sep = []"
| "join [l] sep = l"
| "join (l # m # ls) sep = l @ sep @ join (m # ls) sep"

text \<open>
  \<^verbatim>\<open>serializeEnvFile\<close> of an object, given as the list of its own entries in the order of
  \<^verbatim>\<open>Object.keys\<close>.
\<close>

definition serializeEnvFile :: "(jsstring \<times> jsstring option) list \<Rightarrow> jsstring" where
  "serializeEnvFile env = join (List.map_filter serialize_entry env) [10] @ [10]"

subsection \<open>Auxiliary notions for the round trip\<close>

text \<open>
  What \<^verbatim>\<open>serializeEnvFile\<close> writes for one code unit of a quoted value, and the same once
  the escapes of the code units in \<open>D\<close> have been decoded again.
\<close>

definition esc :: "nat \<Rightarrow> jsstring" where
  "esc c = (if c = 92 then [92, 92] else if c = 10 then [92, 110] else if c = 13 then [92, 114]
            else if c = 9 then [92, 116] else if c = 34 then [92, 34] else [c])"

definition partly :: "nat list \<Rightarrow> nat \<Rightarrow> jsstring" where
  "partly D c = (if c \<in> set D then [c] else esc c)"

text \<open>
  The value in front of the last replacement of \<^verbatim>\<open>parseEnvFile\<close>: every backslash is
  still doubled, except one in front of a single quote, which the replacement before
  has consumed.
\<close>

fun doubled :: "jsstring \<Rightarrow> jsstring" where
  "doubled [] = []"
| "doubled [c] = (if c = 92 then [92, 92] else [c])"
| "doubled (c # d # s) =
     (if c = 92 \<and> d = 39 then 92 # 39 # doubled s
      else if c = 92 then 92 # 92 # doubled (d # s)
      else c # doubled (d # s))"

section \<open>Example states\<close>

text \<open>
  A project with two releases, serving the newer one, and a world in which every command
  succeeds but no poll of the health gate ever sees a running container.  The project is
  \<^verbatim>\<open>/projects/alpha\<close>, and nothing exists on disk but what the model describes.
\<close>

definition example_project :: project where
  "example_project =
     \<lparr>releases = [''v20240101.000000'', ''v20240102.000000''],
      current = Some ''v20240102.000000'',
      compose = CurrentLink,
      composeNew = None,
      meta = \<lparr>repo = ''git@example.org:alpha.git'', branch = ''main'',
               currentVersion = ''v20240102.000000'', previousVersion = Some ''v20240101.000000''\<rparr>,
      running = [CurrentLink]\<rparr>"

definition unhealthy_world :: world where
  "unhealthy_world =
     \<lparr>now = \<lparr>getFullYear = 2024, getMonth = 0, getDate = 3, getHours = 0, getMinutes = 0,
              getSeconds = 0, getMilliseconds = 0\<rparr>,
      gitClone = (\<lambda>b. True),
      dockerBuild = True,
      dockerUp = True,
      dockerDown = True,
      healthPolls = [NotFound, NotFound, NotFound],
      ancestor = (\<lambda>n. if n = 1 then ''alpha'' else if n = 2 then ''projects'' else []),
      elsewhere = (\<lambda>n names. None)\<rparr>"

text \<open>A world in which the second poll of the health gate sees the container running.\<close>

definition healthy_world :: world where
  "healthy_world = unhealthy_world\<lparr>healthPolls := [NotFound, Running]\<rparr>"

text \<open>
  The example project after \<^verbatim>\<open>rollback --version v20240101.000000\<close>; and the project with
  three releases that the example project becomes by one \<^verbatim>\<open>update\<close> and one plain
  \<^verbatim>\<open>rollback\<close>.
\<close>

definition rolled_back_project :: project where
  "rolled_back_project =
     example_project\<lparr>current := Some ''v20240101.000000'',
       compose := ReleaseDir ''v20240101.000000'',
       running := [ReleaseDir ''v20240101.000000'']\<rparr>"

definition three_release_project :: project where
  "three_release_project =
     example_project\<lparr>releases := [''v20240101.000000'', ''v20240102.000000'', ''v20240103.000000''],
       current := Some ''v20240102.000000'',
       compose := ReleaseDir ''v20240102.000000'',
       meta := (meta example_project)\<lparr>previousVersion := Some ''v20240102.000000''\<rparr>,
       running := [ReleaseDir ''v20240102.000000'']\<rparr>"

text \<open>
  A small instance of the library, to evaluate the vault on concrete inputs.  It is no
  cipher: the ``ciphertext'' is the reversed plaintext and the tag is cut from the derived
  key, so that deciphering under another key fails, as it does with the real one.  The
  codecs are the identity, the random source repeats one byte, and only strings and
  \<^verbatim>\<open>null\<close> are serialized.
\<close>

definition toy_tag :: "buffer \<Rightarrow> buffer" where
  "toy_tag key = take AUTH_TAG_LENGTH (key @ replicate AUTH_TAG_LENGTH CHR ''0'')"

definition toy_randomByte :: "byte \<Rightarrow> byte \<times> byte" where
  "toy_randomByte r = (r, r)"

definition toy_pbkdf2 :: "buffer \<Rightarrow> buffer \<Rightarrow> nat \<Rightarrow> nat \<Rightarrow> buffer" where
  "toy_pbkdf2 secret salt iterations keylen =
     take keylen (secret @ salt @ replicate keylen CHR ''0'')"

definition toy_encrypt :: "buffer \<Rightarrow> buffer \<Rightarrow> buffer \<Rightarrow> buffer \<times> buffer" where
  "toy_encrypt key iv pt = (rev pt, toy_tag key)"

definition toy_decrypt :: "buffer \<Rightarrow> buffer \<Rightarrow> buffer \<Rightarrow> buffer \<Rightarrow> buffer option" where
  "toy_decrypt key iv tag ct = (if tag = toy_tag key then Some (rev ct) else None)"

definition toy_codec :: "string \<Rightarrow> string" where
  "toy_codec s = s"

definition toy_stringify :: "json \<Rightarrow> string" where
  "toy_stringify x = (case x of JStr s \<Rightarrow> s | _ \<Rightarrow> ''null'')"

definition toy_parse :: "string \<Rightarrow> json option" where
  "toy_parse s = (if s = ''null'' then Some JNull else Some (JStr s))"

definition toy_library :: "byte library" where
  "toy_library =
     \<lparr>randomByte = toy_randomByte,
      pbkdf2Sync = toy_pbkdf2,
      gcmEncrypt = toy_encrypt,
      gcmDecrypt = toy_decrypt,
      hexEncode = toy_codec,
      hexDecode = toy_codec,
      base64Encode = toy_codec,
      base64Decode = toy_codec,
      utf8Encode = toy_codec,
      utf8Decode = toy_codec,
      JSON_stringify = toy_stringify,
      JSON_parse = toy_parse\<rparr>"

text \<open>
  A vault holding one secret, stored through \<^verbatim>\<open>store\<close> under the key \<^verbatim>\<open>6b6579\<close>; and
  the same vault once writes to the secret's file are rejected.
\<close>

definition empty_vault :: "byte vault" where
  "empty_vault =
     \<lparr>keyFile = Some ''6b6579'', secretFiles = [], unwritable = [], entropy = CHR ''7''\<rparr>"

definition example_vault :: "byte vault" where
  "example_vault = snd (store toy_library empty_vault ''db'' (JStr ''s3cret''))"

definition readonly_vault :: "byte vault" where
  "readonly_vault = example_vault\<lparr>unwritable := [''db.enc'']\<rparr>"

text \<open>
  A \<^verbatim>\<open>SecretsConfig\<close> over the empty vault whose \<^verbatim>\<open>config.json\<close> exists but is not JSON,
  and an environment without variables.
\<close>

definition corrupt_config :: "byte secrets_config" where
  "corrupt_config =
     \<lparr>secrets = empty_vault, configFile = Some (Inl SyntaxError), legacyWarningShown = False\<rparr>"

definition no_env :: process_env where
  "no_env = (\<lambda>name. None)"



















section \<open>Proofs: release version ids\<close>

lemma of_char_digit: "n < 10 \<Longrightarrow> of_char (digit n) = 48 + n"
proof -
  assume "n < 10"
  then have "n \<in> {0, 1, 2, 3, 4, 5, 6, 7, 8, 9}" by auto
  then show ?thesis by (auto simp: digit_def)
qed

lemma digit_less_iff: "a < 10 \<Longrightarrow> b < 10 \<Longrightarrow> digit a < digit b \<longleftrightarrow> a < b"
  by (simp add: less_char_def of_char_digit)

lemma digit_eq_iff: "a < 10 \<Longrightarrow> b < 10 \<Longrightarrow> digit a = digit b \<longleftrightarrow> a = b"
  by (metis of_char_digit add_left_cancel)

lemma String_nat_lt10: "n < 10 \<Longrightarrow> String_nat n = [digit n]"
  by (simp add: String_nat.simps)

lemma String_nat_ge10: "10 \<le> n \<Longrightarrow> String_nat n = String_nat (n div 10) @ [digit (n mod 10)]"
  by (subst String_nat.simps) simp

lemma pad2: "n < 100 \<Longrightarrow> padStart 2 CHR ''0'' (String_nat n) = [digit (n div 10), digit (n mod 10)]"
proof (cases "n < 10")
  case True
  then show ?thesis by (simp add: String_nat_lt10 padStart_def digit_def)
next
  case False
  assume "n < 100"
  with False have "n div 10 < 10" "10 \<le> n" by auto
  then show ?thesis by (simp add: String_nat_ge10 String_nat_lt10 padStart_def)
qed

lemma less_append_same_length:
  fixes a b x y :: "'a::linorder list"
  shows "length a = length b \<Longrightarrow> a @ x < b @ y \<longleftrightarrow> a < b \<or> (a = b \<and> x < y)"
proof (induction a arbitrary: b)
  case Nil then show ?case by simp
next
  case (Cons c cs)
  then obtain d ds where b: "b = d # ds" by (cases b) auto
  with Cons show ?case by auto
qed

lemma lex_div10: "(a div 10 < b div 10 \<or> a div 10 = b div 10 \<and> a mod 10 < b mod 10) \<longleftrightarrow> (a::nat) < b"
proof -
  have "a = 10 * (a div 10) + a mod 10" "b = 10 * (b div 10) + b mod 10" by simp_all
  moreover have "a mod 10 < 10" "b mod 10 < 10" by simp_all
  ultimately show ?thesis by linarith
qed

lemma eq_div10: "(a div 10 = b div 10 \<and> a mod 10 = b mod 10) \<longleftrightarrow> (a::nat) = b"
  by (metis div_mult_mod_eq)

lemma String_nat_length1: "length (String_nat n) = 1 \<longleftrightarrow> n < 10"
proof (cases "n < 10")
  case True then show ?thesis by (simp add: String_nat_lt10)
next
  case False
  then have "String_nat n = String_nat (n div 10) @ [digit (n mod 10)]" by (simp add: String_nat_ge10)
  moreover have "String_nat (n div 10) \<noteq> []" by (subst String_nat.simps) simp
  ultimately show ?thesis using False by simp
qed

lemma String_nat_order:
  "length (String_nat m) = length (String_nat n) \<Longrightarrow>
   (String_nat m < String_nat n \<longleftrightarrow> m < n) \<and> (String_nat m = String_nat n \<longleftrightarrow> m = n)"
proof (induction m arbitrary: n rule: String_nat.induct)
  case (1 m)
  show ?case
  proof (cases "m < 10")
    case True
    with 1(2) have "n < 10" using String_nat_length1[of n] by (simp add: String_nat_lt10)
    with True show ?thesis by (simp add: String_nat_lt10 digit_less_iff digit_eq_iff)
  next
    case False
    then have m: "String_nat m = String_nat (m div 10) @ [digit (m mod 10)]" by (simp add: String_nat_ge10)
    have "\<not> n < 10" using 1(2) False String_nat_length1[of n] String_nat_length1[of m] by simp
    then have n: "String_nat n = String_nat (n div 10) @ [digit (n mod 10)]" by (simp add: String_nat_ge10)
    from 1(2) m n have len: "length (String_nat (m div 10)) = length (String_nat (n div 10))" by simp
    note ih = 1(1)[OF False len]
    have lt: "String_nat m < String_nat n \<longleftrightarrow> m < n"
      unfolding m n using ih len
      by (simp add: less_append_same_length digit_less_iff lex_div10[of m n, symmetric])
    have eq: "String_nat m = String_nat n \<longleftrightarrow> m = n"
      unfolding m n using ih
      by (simp add: digit_eq_iff eq_div10[of m n, symmetric])
    from lt eq show ?thesis by simp
  qed
qed

lemma pad2_less: "m < 100 \<Longrightarrow> n < 100 \<Longrightarrow>
  padStart 2 CHR ''0'' (String_nat m) < padStart 2 CHR ''0'' (String_nat n) \<longleftrightarrow> m < n"
proof -
  assume a: "m < 100" "n < 100"
  then have d: "m div 10 < 10" "n div 10 < 10" by auto
  then show ?thesis using a by (simp add: pad2 digit_less_iff digit_eq_iff lex_div10)
qed

lemma pad2_eq: "m < 100 \<Longrightarrow> n < 100 \<Longrightarrow>
  padStart 2 CHR ''0'' (String_nat m) = padStart 2 CHR ''0'' (String_nat n) \<longleftrightarrow> m = n"
proof -
  assume a: "m < 100" "n < 100"
  then have d: "m div 10 < 10" "n div 10 < 10" by auto
  then show ?thesis using a by (simp add: pad2 digit_eq_iff eq_div10)
qed

lemma pad2_length: "n < 100 \<Longrightarrow> length (padStart 2 CHR ''0'' (String_nat n)) = 2"
  by (simp add: pad2)

lemma generateVersion_order:
  assumes "valid_date d1" "valid_date d2"
    and "length (String_nat (getFullYear d1)) = length (String_nat (getFullYear d2))"
  shows "generateVersion d1 < generateVersion d2 \<longleftrightarrow> second_of d1 < second_of d2"
  using assms String_nat_order[OF assms(3)]
  by (simp add: generateVersion_def second_of_def valid_date_def less_append_same_length
        pad2_length pad2_less pad2_eq) auto

lemma generateVersion_same_second:
  "second_of d1 = second_of d2 \<Longrightarrow> generateVersion d1 = generateVersion d2"
  by (simp add: generateVersion_def second_of_def)

text \<open>
  C9 (as stated): release ids are strictly increasing in creation time.  This fails: the id
  has a resolution of one second, so two releases created half a second apart get the same
  id, which is not strictly less than itself.
\<close>

theorem generateVersion_same_second_counterexample:
  "valid_date \<lparr>getFullYear = 2024, getMonth = 0, getDate = 1, getHours = 0, getMinutes = 0,
       getSeconds = 0, getMilliseconds = 0\<rparr>
   \<and> valid_date \<lparr>getFullYear = 2024, getMonth = 0, getDate = 1, getHours = 0, getMinutes = 0,
       getSeconds = 0, getMilliseconds = 500\<rparr>
   \<and> earlier
      \<lparr>getFullYear = 2024, getMonth = 0, getDate = 1, getHours = 0, getMinutes = 0,
       getSeconds = 0, getMilliseconds = 0\<rparr>
      \<lparr>getFullYear = 2024, getMonth = 0, getDate = 1, getHours = 0, getMinutes = 0,
       getSeconds = 0, getMilliseconds = 500\<rparr>
   \<and> \<not> generateVersion
      \<lparr>getFullYear = 2024, getMonth = 0, getDate = 1, getHours = 0, getMinutes = 0,
       getSeconds = 0, getMilliseconds = 0\<rparr>
     < generateVersion
      \<lparr>getFullYear = 2024, getMonth = 0, getDate = 1, getHours = 0, getMinutes = 0,
       getSeconds = 0, getMilliseconds = 500\<rparr>"
  by (simp add: valid_date_def earlier_def second_of_def generateVersion_def)

text \<open>
  C9 (amended): for two valid dates of one time zone whose years have equally many decimal
  digits (all years from 1000 to 9999, say), the version id of the first is strictly less
  than that of the second, in lexicographic string order, exactly when the first lies in
  an earlier calendar second; creation order is never inverted, and two releases of the same
  second get the same id.
\<close>

theorem generateVersion_monotonic:
  assumes "valid_date d1" and "valid_date d2"
    and "length (String_nat (getFullYear d1)) = length (String_nat (getFullYear d2))"
  shows "(generateVersion d1 < generateVersion d2 \<longleftrightarrow> second_of d1 < second_of d2)
       \<and> (earlier d1 d2 \<longrightarrow> generateVersion d1 \<le> generateVersion d2)
       \<and> (second_of d1 = second_of d2 \<longrightarrow> generateVersion d1 = generateVersion d2)"
proof -
  have lt: "generateVersion d1 < generateVersion d2 \<longleftrightarrow> second_of d1 < second_of d2"
    using assms by (rule generateVersion_order)
  have "generateVersion d1 \<le> generateVersion d2" if "earlier d1 d2"
  proof -
    from that have "second_of d1 < second_of d2 \<or> second_of d1 \<le> second_of d2"
      unfolding earlier_def less_prod_simp by blast
    then have "second_of d1 < second_of d2 \<or> second_of d1 = second_of d2"
      using order_le_less by blast
    then show ?thesis
      using lt generateVersion_same_second[of d1 d2] by auto
  qed
  then show ?thesis using lt generateVersion_same_second[of d1 d2] by blast
qed

theorem generateVersion_monotonic_witness:
  "generateVersion \<lparr>getFullYear = 2024, getMonth = 1, getDate = 29, getHours = 23, getMinutes = 59,
       getSeconds = 59, getMilliseconds = 999\<rparr>
   < generateVersion \<lparr>getFullYear = 2024, getMonth = 2, getDate = 1, getHours = 0, getMinutes = 0,
       getSeconds = 0, getMilliseconds = 0\<rparr>"
  using generateVersion_monotonic[of
      "\<lparr>getFullYear = 2024, getMonth = 1, getDate = 29, getHours = 23, getMinutes = 59,
       getSeconds = 59, getMilliseconds = 999\<rparr>"
      "\<lparr>getFullYear = 2024, getMonth = 2, getDate = 1, getHours = 0, getMinutes = 0,
       getSeconds = 0, getMilliseconds = 0\<rparr>"]
  by (simp add: valid_date_def second_of_def String_nat.simps)

section \<open>Proofs: retention, rollback, update\<close>

lemma fold_remove_release:
  "releases (fold remove_release ds p) = filter (\<lambda>r. r \<notin> set ds) (releases p)
   \<and> current (fold remove_release ds p) = current p"
proof (induction ds arbitrary: p)
  case Nil
  then show ?case by simp
next
  case (Cons d ds)
  have "filter (\<lambda>r. r \<notin> set ds) (removeAll d xs) = filter (\<lambda>r. r \<notin> set (d # ds)) xs" for xs
    by (induction xs) auto
  with Cons show ?case by (simp add: remove_release_def)
qed

lemma set_sortedReleases [simp]: "set (sortedReleases rs) = set rs"
  by (simp add: sortedReleases_def)

lemma distinct_sortedReleases [simp]: "distinct (sortedReleases rs) = distinct rs"
  by (simp add: sortedReleases_def)

lemma length_sortedReleases [simp]: "length (sortedReleases rs) = length rs"
  by (simp add: sortedReleases_def)

lemma kept_releases:
  assumes "distinct rs"
  shows "{r \<in> set rs. r \<notin> set (drop n (sortedReleases rs))} = set (take n (sortedReleases rs))"
proof -
  define A where "A = set (take n (sortedReleases rs))"
  define B where "B = set (drop n (sortedReleases rs))"
  have "A \<union> B = set (take n (sortedReleases rs) @ drop n (sortedReleases rs))"
    unfolding A_def B_def by (rule set_append[symmetric])
  then have u: "A \<union> B = set rs"
    by (simp only: append_take_drop_id set_sortedReleases)
  have "distinct (sortedReleases rs)" using assms by simp
  then have i: "A \<inter> B = {}"
    unfolding A_def B_def by (rule set_take_disj_set_drop_if_distinct) simp
  have "{r \<in> A \<union> B. r \<notin> B} = A" using i by blast
  then show ?thesis unfolding u unfolding A_def B_def .
qed

lemma sortedReleases_descending: "sorted_wrt (\<lambda>a b. b \<le> a) (sortedReleases rs)"
  by (simp add: sortedReleases_def sorted_wrt_rev)

lemma hd_sortedReleases:
  assumes "c \<in> set rs" and "\<forall>r\<in>set rs. r \<le> c"
  shows "\<exists>ys. sortedReleases rs = c # ys"
proof -
  have "set (sortedReleases rs) \<noteq> {}" using assms(1) by auto
  then obtain x ys where xy: "sortedReleases rs = x # ys"
    by (cases "sortedReleases rs") simp_all
  then have "x \<in> set rs" by (metis list.set_intros(1) set_sortedReleases)
  then have "x \<le> c" using assms(2) by blast
  moreover have "c \<le> x"
    using sortedReleases_descending[of rs] assms(1) xy
    by (metis order_refl set_ConsD set_sortedReleases sorted_wrt.simps(2))
  ultimately show ?thesis using xy by simp
qed

lemma cleanupReleases_spec:
  assumes "distinct (releases p)"
  shows "set (releases (cleanupReleases n p)) = set (take n (sortedReleases (releases p)))"
    and "length (releases (cleanupReleases n p)) \<le> n"
    and "current (cleanupReleases n p) = current p"
proof -
  let ?ds = "drop n (sortedReleases (releases p))"
  have r: "releases (cleanupReleases n p) = filter (\<lambda>r. r \<notin> set ?ds) (releases p)"
    by (simp add: cleanupReleases_def fold_remove_release)
  show s: "set (releases (cleanupReleases n p)) = set (take n (sortedReleases (releases p)))"
    using kept_releases[OF assms, of n] by (simp add: r)
  have "distinct (releases (cleanupReleases n p))" using assms by (simp add: r)
  then have "length (releases (cleanupReleases n p)) = card (set (take n (sortedReleases (releases p))))"
    using s by (metis distinct_card)
  also have "\<dots> \<le> length (take n (sortedReleases (releases p)))" by (rule card_length)
  also have "\<dots> \<le> n" by simp
  finally show "length (releases (cleanupReleases n p)) \<le> n" .
  show "current (cleanupReleases n p) = current p"
    by (simp add: cleanupReleases_def fold_remove_release)
qed

text \<open>
  C2 (as stated): pruning never deletes the release that \<^verbatim>\<open>current\<close> references, whatever
  release that is.  This fails: pruning looks at the names only.  With a maximum of one
  release, the project that was rolled back to its older release loses that release.
\<close>

theorem cleanupReleases_deletes_current_counterexample:
  "current rolled_back_project = Some ''v20240101.000000''
   \<and> ''v20240101.000000'' \<in> set (releases rolled_back_project)
   \<and> ''v20240101.000000''
       \<notin> set (releases (cleanupReleases (getMaxReleases (Some 1)) rolled_back_project))"
  by code_simp

text \<open>
  C2 (amended): pruning keeps exactly the \<open>n\<close> greatest release names (all of them if there
  are fewer), so at most \<open>n\<close> releases remain; it does not touch the \<^verbatim>\<open>current\<close> link;
  and it keeps the release \<^verbatim>\<open>current\<close> references whenever that release has the greatest
  name and \<open>n\<close> is positive, which is the situation right after a successful update with
  increasing version ids.
\<close>

theorem cleanupReleases_keeps_newest:
  assumes "distinct (releases p)"
  shows "set (releases (cleanupReleases n p)) = set (take n (sortedReleases (releases p)))
       \<and> length (releases (cleanupReleases n p)) \<le> n
       \<and> current (cleanupReleases n p) = current p
       \<and> (\<forall>c. current p = Some c \<and> c \<in> set (releases p) \<and> 0 < n
              \<and> (\<forall>r\<in>set (releases p). r \<le> c)
            \<longrightarrow> c \<in> set (releases (cleanupReleases n p)))"
proof -
  have "c \<in> set (releases (cleanupReleases n p))"
    if "c \<in> set (releases p)" "0 < n" "\<forall>r\<in>set (releases p). r \<le> c" for c
  proof -
    from hd_sortedReleases[OF that(1) that(3)]
    obtain ys where "sortedReleases (releases p) = c # ys" by blast
    then have "c \<in> set (take n (sortedReleases (releases p)))"
      using that(2) by (cases n) auto
    then show ?thesis using cleanupReleases_spec(1)[OF assms] by simp
  qed
  then show ?thesis using cleanupReleases_spec[OF assms] by blast
qed

theorem cleanupReleases_keeps_newest_witness:
  "distinct (releases example_project)
   \<and> length (releases (cleanupReleases 1 example_project)) \<le> 1
   \<and> ''v20240102.000000'' \<in> set (releases (cleanupReleases 1 example_project))"
proof -
  have d: "distinct (releases example_project)" by code_simp
  have c: "current example_project = Some ''v20240102.000000''
      \<and> ''v20240102.000000'' \<in> set (releases example_project) \<and> 0 < (1::nat)
      \<and> (\<forall>r\<in>set (releases example_project). r \<le> ''v20240102.000000'')"
    by code_simp
  show ?thesis
    using d c cleanupReleases_keeps_newest[OF d, of 1] by blast
qed

lemma sortedReleases_second:
  assumes "distinct rs" and "c \<in> set rs" and "\<forall>r\<in>set rs. r \<le> c" and "2 \<le> length rs"
  shows "preceding_release rs c = Some (sortedReleases rs ! 1)"
proof -
  from hd_sortedReleases[OF assms(2,3)] obtain ys where ys: "sortedReleases rs = c # ys" by blast
  have "length (c # ys) = length rs" by (metis ys length_sortedReleases)
  with assms(4) obtain x zs where zs: "ys = x # zs"
    by (cases ys) simp_all
  have "distinct (c # x # zs)" using assms(1) ys zs by (metis distinct_sortedReleases)
  then have "x \<noteq> c" by auto
  moreover have "x \<in> set rs" using ys zs by (metis list.set_intros(1,2) set_sortedReleases)
  ultimately have "x < c" using assms(3) by (metis order_le_less)
  then show ?thesis by (simp add: preceding_release_def ys zs)
qed

lemma segments_from_plain:
  "CHR ''/'' \<notin> set r \<Longrightarrow> segments_from piece r = [rev piece @ r]"
  by (induction r arbitrary: piece) auto

lemma resolve_plain: "plain_name r \<Longrightarrow> resolve r = (0, [r])"
  by (simp add: plain_name_def resolve_def segments_from_plain)

lemma pathExists_plain: "plain_name r \<Longrightarrow> pathExists_under w p r \<longleftrightarrow> r \<in> set (releases p)"
  by (simp add: pathExists_under_def realpath_under_def resolve_plain)

text \<open>
  Without an explicit version the target is the second greatest name of the directory
  listing, whatever \<^verbatim>\<open>current\<close> references.  That name is an entry of the directory, so
  the exit for a missing version is not taken; and it is the release preceding the one
  \<^verbatim>\<open>current\<close> references when \<^verbatim>\<open>current\<close> references the greatest name.
\<close>

lemma rollback_target_default:
  assumes "distinct (releases p)" and "2 \<le> length (releases p)" and "\<not> truthy version"
    and "\<forall>r\<in>set (releases p). plain_name r"
  shows "rollback_target w version p = RolledBack (sortedReleases (releases p) ! 1)
       \<and> sortedReleases (releases p) ! 1 \<in> set (releases p)
       \<and> (\<forall>v. fst (rollback w version (Some p)) \<noteq> Inr (VersionNotFound v))
       \<and> (\<forall>c. current p = Some c \<and> c \<in> set (releases p) \<and> (\<forall>r\<in>set (releases p). r \<le> c)
            \<longrightarrow> preceding_release (releases p) c = Some (sortedReleases (releases p) ! 1))"
proof -
  let ?t = "sortedReleases (releases p) ! 1"
  have "1 < length (sortedReleases (releases p))" using assms(2) by simp
  then have "?t \<in> set (sortedReleases (releases p))" by (rule nth_mem)
  then have mem: "?t \<in> set (releases p)" by simp
  then have ex: "pathExists_under w p ?t" using assms(4) by (simp add: pathExists_plain)
  have dflt: "or_else version ?t = ?t"
    using assms(3) by (auto simp: or_else_def truthy_def split: option.splits)
  have tgt: "rollback_target w version p = RolledBack ?t"
    using assms(2) ex dflt by (simp add: rollback_target_def Let_def)
  have nf: "fst (rollback w version (Some p)) \<noteq> Inr (VersionNotFound v)" for v
    by (simp add: rollback_def tgt Let_def split: sum.splits)
  have pre: "preceding_release (releases p) c = Some ?t"
    if "c \<in> set (releases p)" "\<forall>r\<in>set (releases p). r \<le> c" for c
    using sortedReleases_second[OF assms(1) that assms(2)] .
  show ?thesis
  proof (intro conjI allI impI)
    show "rollback_target w version p = RolledBack ?t" by (rule tgt)
    show "?t \<in> set (releases p)" by (rule mem)
    show "fst (rollback w version (Some p)) \<noteq> Inr (VersionNotFound v)" for v by (rule nf)
    show "preceding_release (releases p) c = Some ?t"
      if "current p = Some c \<and> c \<in> set (releases p) \<and> (\<forall>r\<in>set (releases p). r \<le> c)" for c
      using that pre by blast
  qed
qed

text \<open>
  An explicit version is a path: the existence check passes for the releases directory
  itself, for the directory above it and for a release named with a trailing slash, and
  fails for a name that is not in the listing.
\<close>

lemma rollback_target_paths:
  "rollback_target healthy_world (Some ''.'') example_project = RolledBack ''.''"
  "rollback_target healthy_world (Some ''..'') example_project = RolledBack ''..''"
  "rollback_target healthy_world (Some ''v20240101.000000/'') example_project
     = RolledBack ''v20240101.000000/''"
  "rollback_target healthy_world (Some ''v20230101.000000'') example_project
     = VersionNotFound ''v20230101.000000''"
  by code_simp+

text \<open>
  The project with three releases is what the example project becomes by an update and a
  rollback, both successful.
\<close>

lemma three_release_project_reached:
  "snd (update 5 healthy_world None (Some example_project))
     = Some (example_project
         \<lparr>releases := [''v20240101.000000'', ''v20240102.000000'', ''v20240103.000000''],
          current := Some ''v20240103.000000'',
          compose := ReleaseDir ''v20240103.000000'',
          meta := (meta example_project)\<lparr>currentVersion := ''v20240103.000000'',
                    previousVersion := Some ''v20240102.000000''\<rparr>,
          running := [ReleaseDir ''v20240103.000000'']\<rparr>)"
  "rollback healthy_world None (snd (update 5 healthy_world None (Some example_project)))
     = (Inr (RolledBack ''v20240102.000000''), Some three_release_project)"
  by code_simp+

text \<open>
  C3: without an explicit version, rollback resolves its target to the release
  immediately preceding the one \<^verbatim>\<open>current\<close> references.  Evaluated on the project with
  three releases, whose \<^verbatim>\<open>current\<close> references the second: the preceding release is the
  first, but rollback resolves to the second, the release that is current already,
  redeploys it and reports success.
\<close>

theorem rollback_targets_release_already_current:
  "current three_release_project = Some ''v20240102.000000''
   \<and> preceding_release (releases three_release_project) ''v20240102.000000''
       = Some ''v20240101.000000''
   \<and> rollback_target healthy_world None three_release_project = RolledBack ''v20240102.000000''
   \<and> rollback healthy_world None (Some three_release_project)
       = (Inr (RolledBack ''v20240102.000000''), Some three_release_project)"
  by code_simp

text \<open>
  C1: an update whose health gate times out fails and leaves the project otherwise
  unchanged, with no new instance left serving.  Evaluated on the example project: the
  update does fail with the timeout and \<^verbatim>\<open>current\<close> still names the old release, but the
  transitional containers started from \<^verbatim>\<open>docker-compose.new.yml\<close> are still running, and
  the new release directory and \<^verbatim>\<open>docker-compose.new.yml\<close> are left behind.
\<close>

theorem update_timeout_leaves_transitional_instance:
  "update 5 unhealthy_world None (Some example_project) =
     (Inl (Error ''Container health check timeout''),
      Some (example_project
        \<lparr>releases := [''v20240101.000000'', ''v20240102.000000'', ''v20240103.000000''],
         composeNew := Some (ReleaseDir ''v20240103.000000''),
         running := [CurrentLink, ReleaseDir ''v20240103.000000'']\<rparr>))"
  by code_simp

section \<open>Proofs: secrets vault\<close>

lemma randomBytes_length: "randomBytes L n r = (bs, r') \<Longrightarrow> length bs = n"
  by (induction n arbitrary: r bs r') (auto split: prod.splits)

lemma length_randomBytes [simp]: "length (fst (randomBytes L n r)) = n"
  by (cases "randomBytes L n r") (simp add: randomBytes_length)

lemma ensureKey_Some [simp]: "keyFile v = Some k \<Longrightarrow> ensureKey L v = (Inr k, v)"
  by (simp add: ensureKey_def)

lemma ensureKey_result:
  "ensureKey L v = (Inr k, v1) \<Longrightarrow> keyFile v1 = Some k"
  by (auto simp: ensureKey_def Let_def split: option.splits prod.splits if_splits)

lemma encrypt_result:
  assumes "encrypt L v x = (Inr blob, v')"
  shows "\<exists>k salt iv. keyFile v' = Some k \<and> length salt = SALT_LENGTH \<and> length iv = IV_LENGTH
           \<and> blob = blob_of L k salt iv x"
proof -
  obtain res v1 where ek: "ensureKey L v = (res, v1)" by (cases "ensureKey L v")
  have "\<exists>k. res = Inr k"
  proof (cases res)
    case (Inl e)
    with ek assms show ?thesis by (simp add: encrypt_def)
  next
    case (Inr k)
    then show ?thesis by blast
  qed
  then obtain k where k: "res = Inr k" by blast
  have kf: "keyFile v1 = Some k" using ensureKey_result[of L v k v1] ek k by simp
  obtain salt r1 where s: "randomBytes L SALT_LENGTH (entropy v1) = (salt, r1)"
    by (cases "randomBytes L SALT_LENGTH (entropy v1)")
  obtain iv r2 where i: "randomBytes L IV_LENGTH r1 = (iv, r2)"
    by (cases "randomBytes L IV_LENGTH r1")
  have ls: "length salt = SALT_LENGTH" using length_randomBytes[of L SALT_LENGTH "entropy v1"] s by simp
  have li: "length iv = IV_LENGTH" using length_randomBytes[of L IV_LENGTH r1] i by simp
  from assms have "blob = blob_of L k salt iv x \<and> v' = v1\<lparr>entropy := r2\<rparr>"
    by (simp add: encrypt_def ek k s i blob_of_def Let_def split: prod.splits)
  then show ?thesis using kf ls li by auto
qed

lemma encrypt_with_key:
  assumes "keyFile v = Some k"
  shows "\<exists>salt iv r. length salt = SALT_LENGTH \<and> length iv = IV_LENGTH
           \<and> encrypt L v x = (Inr (blob_of L k salt iv x), v\<lparr>entropy := r\<rparr>)"
proof -
  obtain salt r1 where s: "randomBytes L SALT_LENGTH (entropy v) = (salt, r1)"
    by (cases "randomBytes L SALT_LENGTH (entropy v)")
  obtain iv r2 where i: "randomBytes L IV_LENGTH r1 = (iv, r2)"
    by (cases "randomBytes L IV_LENGTH r1")
  have ls: "length salt = SALT_LENGTH" using length_randomBytes[of L SALT_LENGTH "entropy v"] s by simp
  have li: "length iv = IV_LENGTH" using length_randomBytes[of L IV_LENGTH r1] i by simp
  have "encrypt L v x = (Inr (blob_of L k salt iv x), v\<lparr>entropy := r2\<rparr>)"
    by (simp add: encrypt_def assms s i blob_of_def Let_def split: prod.splits)
  then show ?thesis using ls li by blast
qed

lemma extract_components_append:
  "length salt = SALT_LENGTH \<Longrightarrow> length iv = IV_LENGTH \<Longrightarrow> length tag = AUTH_TAG_LENGTH \<Longrightarrow>
   extract_components (salt @ iv @ tag @ ct) = (salt, iv, tag, ct)"
  by (simp add: extract_components_def subarray_def subarray_from_def)

lemma decrypt_blob_of:
  assumes "library_laws L" and "keyFile v = Some k"
    and "length salt = SALT_LENGTH" and "length iv = IV_LENGTH"
  shows "decrypt L v (blob_of L k' salt iv x) =
     (case gcmDecrypt L (deriveKey L k salt) iv
             (snd (gcmEncrypt L (deriveKey L k' salt) iv (utf8Encode L (JSON_stringify L x))))
             (fst (gcmEncrypt L (deriveKey L k' salt) iv (utf8Encode L (JSON_stringify L x)))) of
        None \<Rightarrow> (Inl DecipherError, v)
      | Some decrypted \<Rightarrow>
          (case JSON_parse L (utf8Decode L decrypted) of
             None \<Rightarrow> (Inl SyntaxError, v)
           | Some y \<Rightarrow> (Inr y, v)))"
proof -
  from assms(1) have b64: "\<And>b. base64Decode L (base64Encode L b) = b"
    and tl: "\<And>key iv pt. length (snd (gcmEncrypt L key iv pt)) = AUTH_TAG_LENGTH"
    by (simp_all add: library_laws_def)
  show ?thesis
    by (simp add: decrypt_def assms(2) blob_of_def b64 Let_def
          extract_components_append[OF assms(3) assms(4) tl])
qed

lemma decrypt_encrypt_same_key:
  assumes "library_laws L" and "json_serializable L x" and "keyFile v = Some k"
    and "length salt = SALT_LENGTH" and "length iv = IV_LENGTH"
  shows "decrypt L v (blob_of L k salt iv x) = (Inr x, v)"
proof -
  from assms(1) have g: "\<And>key iv pt. gcmDecrypt L key iv (snd (gcmEncrypt L key iv pt)) (fst (gcmEncrypt L key iv pt)) = Some pt"
    and u: "\<And>s. utf8Decode L (utf8Encode L s) = s"
    by (simp_all add: library_laws_def)
  from assms(2) have j: "JSON_parse L (JSON_stringify L x) = Some x" by (simp add: json_serializable_def)
  show ?thesis
    by (simp add: decrypt_blob_of[OF assms(1) assms(3) assms(4) assms(5)] g u j)
qed


lemma store_unwritable:
  assumes "keyFile v = Some k" and "name @ ''.enc'' \<in> set (unwritable v)"
  shows "\<exists>r. store L v name x = (Inl (FsError (name @ ''.enc'')), v\<lparr>entropy := r\<rparr>)"
proof -
  from encrypt_with_key[OF assms(1), of L x] obtain salt iv r where
    "encrypt L v x = (Inr (blob_of L k salt iv x), v\<lparr>entropy := r\<rparr>)" by blast
  then have "store L v name x = (Inl (FsError (name @ ''.enc'')), v\<lparr>entropy := r\<rparr>)"
    using assms(2) by (simp add: store_def Let_def)
  then show ?thesis by blast
qed

lemma store_writable:
  assumes "keyFile v = Some k" and "name @ ''.enc'' \<notin> set (unwritable v)"
  shows "\<exists>salt iv r. length salt = SALT_LENGTH \<and> length iv = IV_LENGTH \<and>
     store L v name x =
       (Inr (), v\<lparr>entropy := r,
                  secretFiles := AList.update (name @ ''.enc'') (blob_of L k salt iv x) (secretFiles v)\<rparr>)"
proof -
  from encrypt_with_key[OF assms(1), of L x] obtain salt iv r where
    l: "length salt = SALT_LENGTH" "length iv = IV_LENGTH" and
    e: "encrypt L v x = (Inr (blob_of L k salt iv x), v\<lparr>entropy := r\<rparr>)" by blast
  have "store L v name x =
       (Inr (), v\<lparr>entropy := r,
                  secretFiles := AList.update (name @ ''.enc'') (blob_of L k salt iv x) (secretFiles v)\<rparr>)"
    using assms(2) by (simp add: store_def Let_def e)
  with l show ?thesis by blast
qed

lemma length_toy_tag: "length (toy_tag key) = AUTH_TAG_LENGTH"
  by (simp add: toy_tag_def)

lemma toy_laws: "library_laws toy_library"
  by (simp add: library_laws_def toy_library_def toy_encrypt_def toy_decrypt_def toy_codec_def
        length_toy_tag)

lemma toy_serializable: "json_serializable toy_library (JStr ''s3cret'')"
  by (simp add: json_serializable_def toy_library_def toy_stringify_def toy_parse_def)

lemma toy_randomBytes: "randomBytes toy_library n c = (replicate n c, c)"
  by (induction n) (simp_all add: toy_library_def toy_randomByte_def)

lemma toy_tag_hd: "hd (toy_tag (deriveKey toy_library (c # k) salt)) = c"
  by (simp add: toy_tag_def deriveKey_def toy_library_def toy_pbkdf2_def toy_codec_def
        KEY_LENGTH_def AUTH_TAG_LENGTH_def)

lemma toy_wrong_key:
  assumes "c \<noteq> c'"
  shows "gcmDecrypt toy_library (deriveKey toy_library (c # k) salt) iv
           (snd (gcmEncrypt toy_library (deriveKey toy_library (c' # k') salt) iv pt))
           (fst (gcmEncrypt toy_library (deriveKey toy_library (c' # k') salt) iv pt)) = None"
proof -
  have "toy_tag (deriveKey toy_library (c' # k') salt) \<noteq> toy_tag (deriveKey toy_library (c # k) salt)"
    using assms toy_tag_hd[of c k salt] toy_tag_hd[of c' k' salt] by metis
  then show ?thesis
    by (simp add: toy_library_def toy_encrypt_def toy_decrypt_def)
qed

text \<open>
  C5: for every JSON-serializable value \<open>x\<close>, decrypting the blob that \<open>encrypt\<close> produced
  for \<open>x\<close> returns \<open>x\<close>, as long as the master key file is unchanged (\<open>v''\<close> is any
  later state of the vault with the key file of the state that \<open>encrypt\<close> left).  The
  library is assumed to satisfy \<open>library_laws\<close>.
\<close>

theorem decrypt_encrypt_roundtrip:
  assumes "library_laws L" and "json_serializable L x"
    and "encrypt L v x = (Inr blob, v')" and "keyFile v'' = keyFile v'"
  shows "decrypt L v'' blob = (Inr x, v'')"
proof -
  from encrypt_result[OF assms(3)] obtain k salt iv where
    k: "keyFile v' = Some k" and l: "length salt = SALT_LENGTH" "length iv = IV_LENGTH"
    and b: "blob = blob_of L k salt iv x" by blast
  from k assms(4) have "keyFile v'' = Some k" by simp
  then show ?thesis unfolding b by (rule decrypt_encrypt_same_key[OF assms(1) assms(2) _ l])
qed

theorem decrypt_encrypt_roundtrip_witness:
  "library_laws toy_library \<and> json_serializable toy_library (JStr ''s3cret'')
   \<and> (case encrypt toy_library empty_vault (JStr ''s3cret'') of
         (Inr blob, v') \<Rightarrow> decrypt toy_library v' blob = (Inr (JStr ''s3cret''), v')
       | (Inl e, v') \<Rightarrow> False)"
proof -
  have k: "keyFile empty_vault = Some ''6b6579''" by (simp add: empty_vault_def)
  from encrypt_with_key[OF k, of toy_library "JStr ''s3cret''"] obtain salt iv r where
    e: "encrypt toy_library empty_vault (JStr ''s3cret'')
          = (Inr (blob_of toy_library ''6b6579'' salt iv (JStr ''s3cret'')), empty_vault\<lparr>entropy := r\<rparr>)"
    by blast
  from decrypt_encrypt_roundtrip[OF toy_laws toy_serializable e refl]
  show ?thesis by (simp add: e toy_laws toy_serializable)
qed


text \<open>
  C6: the blob is a 64-byte salt, a 12-byte iv, a 16-byte tag and the ciphertext, and
  \<open>decrypt\<close> parses it so.  The code does not do this: \<^verbatim>\<open>IV_LENGTH\<close> is 16, so every blob
  \<open>encrypt\<close> emits carries a 16-byte iv after the salt, and \<open>decrypt\<close> slices 16 bytes for
  the iv (from any blob of at least 80 bytes).
\<close>

theorem encrypt_emits_16_byte_iv:
  "IV_LENGTH = 16
   \<and> (case encrypt L v x of
         (Inl e, v') \<Rightarrow> True
       | (Inr blob, v') \<Rightarrow>
           (\<exists>salt iv rest. blob = base64Encode L (salt @ iv @ rest)
              \<and> length salt = 64 \<and> length iv = 16))
   \<and> length (fst (snd (extract_components data))) = min 16 (length data - 64)"
proof -
  have "\<exists>salt iv rest. blob = base64Encode L (salt @ iv @ rest) \<and> length salt = 64 \<and> length iv = 16"
    if "encrypt L v x = (Inr blob, v')" for blob v'
  proof -
    from encrypt_result[OF that] obtain k salt iv where
      "length salt = SALT_LENGTH" "length iv = IV_LENGTH" "blob = blob_of L k salt iv x" by blast
    then show ?thesis unfolding blob_of_def SALT_LENGTH_def IV_LENGTH_def by blast
  qed
  then have "case encrypt L v x of
         (Inl e, v') \<Rightarrow> True
       | (Inr blob, v') \<Rightarrow>
           (\<exists>salt iv rest. blob = base64Encode L (salt @ iv @ rest)
              \<and> length salt = 64 \<and> length iv = 16)"
    by (cases "encrypt L v x"; cases "fst (encrypt L v x)") auto
  moreover have "length (fst (snd (extract_components data))) = min 16 (length data - 64)"
    by (simp add: extract_components_def subarray_def SALT_LENGTH_def IV_LENGTH_def)
  ultimately show ?thesis by (simp add: IV_LENGTH_def)
qed


text \<open>
  The object of \<open>rotateKey\<close> on small inputs: a secret named \<^verbatim>\<open>__proto__\<close> does not become
  an entry, and names that are array indices are enumerated first, in numeric order.
\<close>

lemma assign_property_proto:
  "assign_property [(''db'', x)] ''__proto__'' y = [(''db'', x)]"
  by (simp add: assign_property_def)

lemma Object_entries_order:
  "map fst (Object_entries [(''db'', x), (''10'', y), (''9'', z), (''07'', u)])
     = [''9'', ''10'', ''db'', ''07'']"
  by (simp add: Object_entries_def isArrayIndex_def decimal_value_def)

text \<open>
  C4: when re-encrypting a stored secret fails during \<open>rotateKey\<close>, the old master key is
  not yet discarded and every stored secret stays decryptable.  The code does not do this:
  it overwrites the key file before it re-encrypts.  On the example vault, whose only secret
  decrypts before the rotation and whose secret file rejects writes, the rotation fails,
  the key file holds the new key, and the secret no longer decrypts.
\<close>

lemma example_vault_eq:
  "\<exists>salt iv. length salt = SALT_LENGTH \<and> length iv = IV_LENGTH \<and>
     example_vault = empty_vault\<lparr>entropy := CHR ''7'',
        secretFiles := [(''db.enc'', blob_of toy_library ''6b6579'' salt iv (JStr ''s3cret''))]\<rparr>"
proof -
  have k: "keyFile empty_vault = Some ''6b6579''" by (simp add: empty_vault_def)
  have w: "''db'' @ ''.enc'' \<notin> set (unwritable empty_vault)" by (simp add: empty_vault_def)
  from store_writable[OF k w, of toy_library "JStr ''s3cret''"] obtain salt iv r where
    l: "length salt = SALT_LENGTH" "length iv = IV_LENGTH" and
    s: "store toy_library empty_vault ''db'' (JStr ''s3cret'') =
       (Inr (), empty_vault\<lparr>entropy := r,
          secretFiles := AList.update (''db'' @ ''.enc'') (blob_of toy_library ''6b6579'' salt iv (JStr ''s3cret''))
             (secretFiles empty_vault)\<rparr>)" by blast
  have "entropy (snd (store toy_library empty_vault ''db'' (JStr ''s3cret''))) = CHR ''7''"
    by (simp add: store_def encrypt_def k toy_randomBytes empty_vault_def Let_def split: prod.splits)
  with s have "r = CHR ''7''" by simp
  with s l show ?thesis by (auto simp: example_vault_def empty_vault_def)
qed


theorem rotateKey_failure_discards_old_key:
  "fst (retrieve toy_library readonly_vault ''db'') = Inr (JStr ''s3cret'')
   \<and> fst (rotateKey toy_library readonly_vault) = Inl (FsError ''db.enc'')
   \<and> keyFile readonly_vault = Some ''6b6579''
   \<and> keyFile (snd (rotateKey toy_library readonly_vault)) = Some (replicate 32 CHR ''7'')
   \<and> fst (retrieve toy_library (snd (rotateKey toy_library readonly_vault)) ''db'') = Inl DecipherError"
proof -
  let ?x = "JStr ''s3cret''"
  from example_vault_eq obtain salt iv where
    l: "length salt = SALT_LENGTH" "length iv = IV_LENGTH" and
    ev: "example_vault = empty_vault\<lparr>entropy := CHR ''7'',
        secretFiles := [(''db.enc'', blob_of toy_library ''6b6579'' salt iv ?x)]\<rparr>" by blast
  let ?B = "blob_of toy_library ''6b6579'' salt iv ?x"
  let ?rv = "readonly_vault"
  have k: "keyFile ?rv = Some ''6b6579''"
    and f: "secretFiles ?rv = [(''db.enc'', ?B)]"
    and u: "unwritable ?rv = [''db.enc'']"
    and en: "entropy ?rv = CHR ''7''"
    by (simp_all add: readonly_vault_def ev empty_vault_def)
  have r1: "retrieve toy_library ?rv ''db'' = (Inr ?x, ?rv)"
    by (simp add: retrieve_def f decrypt_encrypt_same_key[OF toy_laws toy_serializable k l])
  have ls: "list_secrets ?rv = [''db'']"
    by (simp add: list_secrets_def f endsWith_def)
  have loop1: "retrieve_each toy_library (list_secrets ?rv) [] ?rv = (Inr [(''db'', ?x)], ?rv)"
    by (simp add: ls r1 assign_property_def)
  have entries: "Object_entries [(''db'', ?x)] = [(''db'', ?x)]"
    by (simp add: Object_entries_def isArrayIndex_def)
  let ?nk = "replicate 32 CHR ''7''"
  let ?v2 = "?rv\<lparr>entropy := CHR ''7'', keyFile := Some ?nk\<rparr>"
  have k2: "keyFile ?v2 = Some ?nk" by simp
  have u2: "''db'' @ ''.enc'' \<in> set (unwritable ?v2)" by (simp add: u)
  from store_unwritable[OF k2 u2, of toy_library ?x] obtain r where
    st: "store toy_library ?v2 ''db'' ?x = (Inl (FsError (''db'' @ ''.enc'')), ?v2\<lparr>entropy := r\<rparr>)"
    by blast
  have rot: "rotateKey toy_library ?rv = (Inl (FsError ''db.enc''), ?v2\<lparr>entropy := r\<rparr>)"
    using st by (simp add: rotateKey_def loop1 entries en u toy_randomBytes KEY_LENGTH_def Let_def
        toy_library_def[THEN arg_cong, of hexEncode] toy_codec_def)
  let ?v3 = "?v2\<lparr>entropy := r\<rparr>"
  have k3: "keyFile ?v3 = Some (CHR ''7'' # replicate 31 CHR ''7'')"
    by (simp add: numeral_eq_Suc)
  have "decrypt toy_library ?v3 (blob_of toy_library (CHR ''6'' # ''b6579'') salt iv ?x) = (Inl DecipherError, ?v3)"
    unfolding decrypt_blob_of[OF toy_laws k3 l]
    by (simp add: toy_wrong_key)
  then have r3: "retrieve toy_library ?v3 ''db'' = (Inl DecipherError, ?v3)"
    by (simp add: retrieve_def f)
  show ?thesis using r1 rot r3 k by simp
qed
section \<open>Proofs: credential resolution\<close>

lemma property_truthy_obj:
  "truthy_json (property x n) \<Longrightarrow> \<exists>entries. x = JObj entries"
  by (cases x) (simp_all add: property_def truthy_json_def)

lemma override_tier:
  "tier_credentials L env sc Override =
     (if truthy (env ''NPM_EMAIL'') \<and> truthy (env ''NPM_PASSWORD'') then Some (env_credentials env) else None)"
  by (auto simp: tier_credentials_def truthy_def env_credentials_def or_else_def split: option.splits)

lemma encrypted_tier:
  "tier_credentials L env sc Encrypted =
     (case fst (retrieve L (secrets sc) ''npm_credentials'') of
        Inl e \<Rightarrow> None
      | Inr x \<Rightarrow> if truthy_json (property x ''email'') \<and> truthy_json (property x ''password'') then Some x else None)"
proof (cases "fst (retrieve L (secrets sc) ''npm_credentials'')")
  case (Inl e)
  then show ?thesis by (simp add: tier_credentials_def)
next
  case (Inr x)
  then show ?thesis
    by (cases x) (simp_all add: tier_credentials_def property_def truthy_json_def)
qed

lemma legacy_tier:
  "tier_credentials L env sc Legacy =
     (case configFile sc of
        None \<Rightarrow> None
      | Some (Inl e) \<Rightarrow> None
      | Some (Inr config) \<Rightarrow>
          if truthy_json (property config ''npmEmail'') \<and> truthy_json (property config ''npmPassword'')
          then Some (legacy_credentials config) else None)"
proof (cases "configFile sc")
  case None
  then show ?thesis by (simp add: tier_credentials_def)
next
  case (Some contents)
  show ?thesis
  proof (cases contents)
    case (Inl e)
    with Some show ?thesis by (simp add: tier_credentials_def)
  next
    case (Inr config)
    with Some show ?thesis
      by (cases config)
         (auto simp: tier_credentials_def property_def truthy_json_def legacy_credentials_def
               value_of_def split: option.splits)
  qed
qed

text \<open>
  What the two functions return in every state: the first of the tiers override and vault
  that holds both an email and a password; otherwise the legacy tier is consulted, and
  a \<^verbatim>\<open>config.json\<close> that cannot be read or parsed makes the call throw.
\<close>

lemma credential_resolution:
  "fst (getNpmCredentials L env sc) =
     (case first_match (tier_credentials L env sc) [Override, Encrypted] of
        Some (t, creds) \<Rightarrow> Inr creds
      | None \<Rightarrow>
          (case configFile sc of
             Some (Inl e) \<Rightarrow> Inl e
           | _ \<Rightarrow> Inr (case tier_credentials L env sc Legacy of None \<Rightarrow> JNull | Some creds \<Rightarrow> creds)))"
  "fst (getCredentialSource L env sc) =
     (case first_match (tier_credentials L env sc) [Override, Encrypted] of
        Some (t, creds) \<Rightarrow> Inr (tier_name t)
      | None \<Rightarrow>
          (case configFile sc of
             Some (Inl e) \<Rightarrow> Inl e
           | _ \<Rightarrow> Inr (case tier_credentials L env sc Legacy of None \<Rightarrow> ''none''
                               | Some creds \<Rightarrow> tier_name Legacy)))"
proof -
  obtain r v1 where rv: "retrieve L (secrets sc) ''npm_credentials'' = (r, v1)"
    by (cases "retrieve L (secrets sc) ''npm_credentials''")
  have "fst (getNpmCredentials L env sc) =
     (case first_match (tier_credentials L env sc) [Override, Encrypted] of
        Some (t, creds) \<Rightarrow> Inr creds
      | None \<Rightarrow>
          (case configFile sc of
             Some (Inl e) \<Rightarrow> Inl e
           | _ \<Rightarrow> Inr (case tier_credentials L env sc Legacy of None \<Rightarrow> JNull | Some creds \<Rightarrow> creds)))
    \<and> fst (getCredentialSource L env sc) =
     (case first_match (tier_credentials L env sc) [Override, Encrypted] of
        Some (t, creds) \<Rightarrow> Inr (tier_name t)
      | None \<Rightarrow>
          (case configFile sc of
             Some (Inl e) \<Rightarrow> Inl e
           | _ \<Rightarrow> Inr (case tier_credentials L env sc Legacy of None \<Rightarrow> ''none''
                               | Some creds \<Rightarrow> tier_name Legacy)))"
  proof (cases "truthy (env ''NPM_EMAIL'') \<and> truthy (env ''NPM_PASSWORD'')")
    case True
    then show ?thesis
      by (simp add: getNpmCredentials_def getCredentialSource_def override_tier tier_name_def)
  next
    case False
    show ?thesis
    proof (cases r)
      case (Inl e)
      with False rv show ?thesis
        by (simp add: getNpmCredentials_def getCredentialSource_def override_tier
              encrypted_tier legacy_tier tier_name_def loadLegacyConfig_def Let_def
              split: option.splits sum.splits)
    next
      case (Inr x)
      with False rv show ?thesis
        by (simp add: getNpmCredentials_def getCredentialSource_def override_tier
              encrypted_tier legacy_tier tier_name_def loadLegacyConfig_def Let_def value_of_def
              split: option.splits sum.splits)
    qed
  qed
  then show
    "fst (getNpmCredentials L env sc) =
     (case first_match (tier_credentials L env sc) [Override, Encrypted] of
        Some (t, creds) \<Rightarrow> Inr creds
      | None \<Rightarrow>
          (case configFile sc of
             Some (Inl e) \<Rightarrow> Inl e
           | _ \<Rightarrow> Inr (case tier_credentials L env sc Legacy of None \<Rightarrow> JNull | Some creds \<Rightarrow> creds)))"
    "fst (getCredentialSource L env sc) =
     (case first_match (tier_credentials L env sc) [Override, Encrypted] of
        Some (t, creds) \<Rightarrow> Inr (tier_name t)
      | None \<Rightarrow>
          (case configFile sc of
             Some (Inl e) \<Rightarrow> Inl e
           | _ \<Rightarrow> Inr (case tier_credentials L env sc Legacy of None \<Rightarrow> ''none''
                               | Some creds \<Rightarrow> tier_name Legacy)))"
    by simp_all
qed

text \<open>
  Hence the first-match chain of the specification is what both functions compute
  whenever \<^verbatim>\<open>config.json\<close> is absent or parses, or one of the first two tiers satisfies
  the request.
\<close>

lemma credential_resolution_first_match:
  assumes "(\<forall>e. configFile sc \<noteq> Some (Inl e))
         \<or> first_match (tier_credentials L env sc) [Override, Encrypted] \<noteq> None"
  shows "fst (getNpmCredentials L env sc) =
     Inr (case first_match (tier_credentials L env sc) chain of
            None \<Rightarrow> JNull
          | Some (t, creds) \<Rightarrow> creds)"
    and "fst (getCredentialSource L env sc) =
     Inr (case first_match (tier_credentials L env sc) chain of
            None \<Rightarrow> ''none''
          | Some (t, creds) \<Rightarrow> tier_name t)"
  using assms
  by (auto simp: credential_resolution chain_def split: option.splits sum.splits)

text \<open>
  C8: credential resolution is first-match-wins over the chain override, vault, legacy
  store: \<open>getNpmCredentials\<close> returns the credentials of the first tier of the chain that
  holds both an email and a password (\<^verbatim>\<open>null\<close> if none does), and
  \<open>getCredentialSource\<close> names exactly that tier (\<^verbatim>\<open>none\<close> if none does).  Evaluated
  with no override in the environment, a vault without the secret \<^verbatim>\<open>npm_credentials\<close> and
  a \<^verbatim>\<open>config.json\<close> that is not JSON: no tier of the chain holds credentials, but neither
  function returns; both throw the error of \<^verbatim>\<open>fs.readJson\<close>.
\<close>

theorem credential_resolution_throws_on_unparsable_config:
  "first_match (tier_credentials toy_library no_env corrupt_config) chain = None
   \<and> fst (getNpmCredentials toy_library no_env corrupt_config) = Inl SyntaxError
   \<and> fst (getCredentialSource toy_library no_env corrupt_config) = Inl SyntaxError"
  by (simp add: chain_def tier_credentials_def getNpmCredentials_def getCredentialSource_def
        loadLegacyConfig_def retrieve_def no_env_def corrupt_config_def empty_vault_def
        truthy_def property_def truthy_json_def Let_def)
section \<open>Proofs: database provisioning\<close>










section \<open>Proofs: the \<^verbatim>\<open>.env\<close> round trip\<close>

subsection \<open>Escaping and unescaping\<close>

lemma replace_pair_skip: "x \<noteq> a \<Longrightarrow> replace_pair a b r (x # t) = x # replace_pair a b r t"
  by (cases t) simp_all

lemma replace_pair_miss:
  "y \<noteq> b \<Longrightarrow> y \<noteq> a \<Longrightarrow> replace_pair a b r (a # y # t) = a # y # replace_pair a b r t"
  by (simp add: replace_pair_skip)

lemma replace_pair_tail:
  "t = [] \<or> hd t \<noteq> b \<Longrightarrow> replace_pair a b r (a # t) = a # replace_pair a b r t"
  by (cases t) auto

text \<open>
  One replacement of \<^verbatim>\<open>parseEnvFile\<close> on a text made of units: each unit is one code unit
  other than the backslash, or a backslash and one more code unit.  The replacement acts
  unit by unit as long as no doubled backslash stands in front of a unit that begins
  with the second code unit of the pattern.
\<close>

lemma replace_pair_pass:
  assumes "b \<noteq> 92"
    and "\<forall>c\<in>set s. (\<exists>x. f c = [x] \<and> x \<noteq> 92) \<or> (\<exists>y. f c = [92, y])"
    and "\<forall>(c, d)\<in>set (zip s (tl s)). f c = [92, 92] \<longrightarrow> hd (f d) \<noteq> b"
  shows "replace_pair 92 b r (concat (map f s))
       = concat (map (\<lambda>c. if f c = [92, b] then [r] else f c) s)"
  using assms(2,3)
proof (induction s)
  case Nil
  then show ?case by simp
next
  case (Cons c s)
  note prems = Cons.prems
  let ?t = "concat (map f s)"
  have sub: "set (zip s (tl s)) \<subseteq> set (zip (c # s) (tl (c # s)))" by (cases s) auto
  have ih: "replace_pair 92 b r ?t = concat (map (\<lambda>c. if f c = [92, b] then [r] else f c) s)"
  proof (rule Cons.IH)
    show "\<forall>c\<in>set s. (\<exists>x. f c = [x] \<and> x \<noteq> 92) \<or> (\<exists>y. f c = [92, y])"
      using prems(1) by simp
    show "\<forall>(c, d)\<in>set (zip s (tl s)). f c = [92, 92] \<longrightarrow> hd (f d) \<noteq> b"
      using prems(2) sub by blast
  qed
  have tail: "?t = [] \<or> hd ?t \<noteq> b" if dbl: "f c = [92, 92]"
  proof (cases s)
    case Nil
    then show ?thesis by simp
  next
    case (Cons d s')
    then have "(c, d) \<in> set (zip (c # s) (tl (c # s)))" by simp
    with prems(2) dbl have "hd (f d) \<noteq> b" by blast
    moreover have "f d \<noteq> []" using prems(1) Cons by auto
    ultimately show ?thesis using Cons by simp
  qed
  from prems(1) consider x where "f c = [x]" "x \<noteq> 92" | y where "f c = [92, y]"
    by auto
  then show ?case
  proof cases
    case 1
    then show ?thesis by (simp add: replace_pair_skip ih)
  next
    case 2
    show ?thesis
    proof (cases "y = b")
      case True
      with 2 show ?thesis by (simp add: ih)
    next
      case False
      show ?thesis
      proof (cases "y = 92")
        case True
        with 2 have dbl: "f c = [92, 92]" by simp
        have "replace_pair 92 b r (92 # 92 # ?t) = 92 # replace_pair 92 b r (92 # ?t)"
          using assms(1) by simp
        also have "\<dots> = 92 # 92 # replace_pair 92 b r ?t"
          using tail[OF dbl] by (simp only: replace_pair_tail)
        finally show ?thesis using dbl assms(1) by (simp add: ih)
      next
        case no: False
        have skip: "replace_pair 92 b r (y # t) = y # replace_pair 92 b r t" for t
          using no by (rule replace_pair_skip)
        from 2 False show ?thesis by (simp add: skip ih)
      qed
    qed
  qed
qed

lemma escape_Cons: "escape (c # s) = escape [c] @ escape s"
  by (simp add: escape_def replace_unit_def)

lemma escape_unit: "escape [c] = esc c"
  by (simp add: escape_def replace_unit_def esc_def)

lemma partly_Nil: "partly [] = esc"
  by (rule ext) (simp add: partly_def)

lemma escape_concat: "escape s = concat (map (partly []) s)"
proof (induction s)
  case Nil
  then show ?case by (simp add: escape_def replace_unit_def)
next
  case (Cons c s)
  then show ?case by (subst escape_Cons) (simp add: escape_unit partly_Nil)
qed

lemma partly_shape:
  "92 \<notin> set D \<Longrightarrow> (\<exists>x. partly D c = [x] \<and> x \<noteq> 92) \<or> (\<exists>y. partly D c = [92, y])"
  by (auto simp: partly_def esc_def)

lemma partly_doubled: "92 \<notin> set D \<Longrightarrow> partly D c = [92, 92] \<Longrightarrow> c = 92"
  by (auto simp: partly_def esc_def split: if_splits)

lemma hd_partly: "hd (partly D d) = b \<Longrightarrow> b \<noteq> 92 \<Longrightarrow> d = b"
  by (auto simp: partly_def esc_def split: if_splits)

lemma partly_pass:
  assumes "b \<noteq> 92" and "92 \<notin> set D"
    and "(92, b) \<notin> set (zip s (tl s)) \<or> hd (partly D b) \<noteq> b"
    and "\<And>c. (if partly D c = [92, b] then [r] else partly D c) = partly D' c"
  shows "replace_pair 92 b r (concat (map (partly D) s)) = concat (map (partly D') s)"
proof -
  have shape: "\<forall>c\<in>set s. (\<exists>x. partly D c = [x] \<and> x \<noteq> 92) \<or> (\<exists>y. partly D c = [92, y])"
    using partly_shape[OF assms(2)] by blast
  have "hd (partly D d) \<noteq> b" if "(c, d) \<in> set (zip s (tl s))" and "partly D c = [92, 92]" for c d
  proof
    assume h: "hd (partly D d) = b"
    then have "d = b" using assms(1) by (rule hd_partly)
    moreover have "c = 92" using assms(2) that(2) by (rule partly_doubled)
    ultimately show False using that(1) h assms(3) by simp
  qed
  then have adj: "\<forall>(c, d)\<in>set (zip s (tl s)). partly D c = [92, 92] \<longrightarrow> hd (partly D d) \<noteq> b"
    by blast
  have "replace_pair 92 b r (concat (map (partly D) s))
       = concat (map (\<lambda>c. if partly D c = [92, b] then [r] else partly D c) s)"
    using assms(1) shape adj by (rule replace_pair_pass)
  also have "map (\<lambda>c. if partly D c = [92, b] then [r] else partly D c) s = map (partly D') s"
    by (simp only: assms(4))
  finally show ?thesis .
qed

lemma partly_all: "partly [10, 13, 9, 34] c = (if c = 92 then [92, 92] else [c])"
  by (simp add: partly_def esc_def)

text \<open>The replacement of the escaped single quote, and the last one.\<close>

lemma partly_all_backslash: "partly [10, 13, 9, 34] 92 = [92, 92]"
  by (simp add: partly_all)

lemma partly_all_other: "c \<noteq> 92 \<Longrightarrow> partly [10, 13, 9, 34] c = [c]"
  by (simp add: partly_all)

lemma doubled_pass: "replace_pair 92 39 39 (concat (map (partly [10, 13, 9, 34]) s)) = doubled s"
proof (induction s rule: doubled.induct)
  case 1
  then show ?case by simp
next
  case (2 c)
  then show ?case by (cases "c = 92") (simp_all add: partly_all_backslash partly_all_other)
next
  case (3 c d s)
  let ?t = "concat (map (partly [10, 13, 9, 34]) s)"
  consider "c = 92" "d = 39" | "c = 92" "d \<noteq> 39" | "c \<noteq> 92" by blast
  then show ?case
  proof cases
    case 1
    with 3 have "replace_pair 92 39 39 ?t = doubled s" by simp
    with 1 show ?thesis by (simp add: partly_all_backslash partly_all_other)
  next
    case 2
    with 3 have ih: "replace_pair 92 39 39 (partly [10, 13, 9, 34] d @ ?t) = doubled (d # s)"
      by simp
    have "hd (partly [10, 13, 9, 34] d @ ?t) \<noteq> 39"
      using 2(2) by (cases "d = 92") (simp_all add: partly_all_backslash partly_all_other)
    then have "replace_pair 92 39 39 (92 # partly [10, 13, 9, 34] d @ ?t)
         = 92 # replace_pair 92 39 39 (partly [10, 13, 9, 34] d @ ?t)"
      by (intro replace_pair_tail) simp
    with 2 ih show ?thesis by (simp add: partly_all_backslash)
  next
    case 3
    with "3.IH" have ih: "replace_pair 92 39 39 (partly [10, 13, 9, 34] d @ ?t) = doubled (d # s)"
      by simp
    have "replace_pair 92 39 39 (c # partly [10, 13, 9, 34] d @ ?t)
         = c # replace_pair 92 39 39 (partly [10, 13, 9, 34] d @ ?t)"
      using 3 by (rule replace_pair_skip)
    with 3 ih show ?thesis by (simp add: partly_all_other)
  qed
qed

lemma doubled_last: "replace_pair 92 92 92 (doubled s) = s"
  by (induction s rule: doubled.induct) (simp_all add: replace_pair_skip)

text \<open>
  Unescaping undoes escaping whenever no backslash of the value is immediately followed
  by \<^verbatim>\<open>n\<close>, \<^verbatim>\<open>r\<close> or \<^verbatim>\<open>t\<close>.
\<close>

lemma unescape_escape:
  assumes "(92, 110) \<notin> set (zip s (tl s))" and "(92, 114) \<notin> set (zip s (tl s))"
    and "(92, 116) \<notin> set (zip s (tl s))"
  shows "unescape (escape s) = s"
proof -
  have 1: "replace_pair 92 110 10 (concat (map (partly []) s)) = concat (map (partly [10]) s)"
    using assms(1) by (intro partly_pass) (simp_all add: partly_def esc_def)
  have 2: "replace_pair 92 114 13 (concat (map (partly [10]) s)) = concat (map (partly [10, 13]) s)"
    using assms(2) by (intro partly_pass) (simp_all add: partly_def esc_def)
  have 3: "replace_pair 92 116 9 (concat (map (partly [10, 13]) s))
         = concat (map (partly [10, 13, 9]) s)"
    using assms(3) by (intro partly_pass) (simp_all add: partly_def esc_def)
  have 4: "replace_pair 92 34 34 (concat (map (partly [10, 13, 9]) s))
         = concat (map (partly [10, 13, 9, 34]) s)"
    by (intro partly_pass) (simp_all add: partly_def esc_def)
  show ?thesis
    unfolding unescape_def escape_concat 1 2 3 4 doubled_pass by (rule doubled_last)
qed

subsection \<open>One line\<close>

lemma set_replace_unit:
  "set (replace_unit a rep s) = (set s - {a}) \<union> (if a \<in> set s then set rep else {})"
  by (induction s) (auto simp: replace_unit_def)

lemma escape_no_line_feed: "10 \<notin> set (escape s)"
  by (simp add: escape_def set_replace_unit)

lemma trim_id:
  assumes "s \<noteq> []" and "\<not> isWhiteSpace (hd s)" and "\<not> isWhiteSpace (last s)"
  shows "trim s = s"
proof -
  from assms(1,2) have 1: "dropWhile isWhiteSpace s = s" by (cases s) simp_all
  from assms(1,3) have 2: "dropWhile isWhiteSpace (rev s) = rev s"
    by (cases "rev s") (simp_all add: last_rev[symmetric])
  show ?thesis by (simp add: trim_def 1 2)
qed

lemma trim_Nil: "trim [] = []"
  by (simp add: trim_def)

lemma parse_line_Nil: "parse_line [] = None"
  by (simp add: parse_line_def trim_Nil)

lemma isKeyPart_plain:
  assumes "isKeyPart c"
  shows "\<not> isWhiteSpace c" and "c \<noteq> 61" and "c \<noteq> 35" and "c \<noteq> 32" and "c \<noteq> 10" and "c \<noteq> 65279"
  using assms by (auto simp: isKeyPart_def isKeyStart_def isWhiteSpace_def)

lemma KEY_REGEX_test_iff:
  "KEY_REGEX_test key \<longleftrightarrow> key \<noteq> [] \<and> isKeyStart (hd key) \<and> (\<forall>c\<in>set (tl key). isKeyPart c)"
  by (cases key) (simp_all add: KEY_REGEX_test_def list_all_iff)

lemma key_units:
  assumes "KEY_REGEX_test key"
  shows "key \<noteq> []" and "\<forall>c\<in>set key. isKeyPart c"
proof -
  from assms show "key \<noteq> []" by (simp add: KEY_REGEX_test_iff)
  from assms show "\<forall>c\<in>set key. isKeyPart c"
    by (cases key) (auto simp: KEY_REGEX_test_iff isKeyPart_def)
qed

lemma indexOf_append: "c \<notin> set xs \<Longrightarrow> indexOf c (xs @ c # ys) = Some (length xs)"
  by (induction xs) auto

lemma js_export: "js ''export '' = [101, 120, 112, 111, 114, 116, 32]"
  by (simp add: js_def)

lemma not_export:
  assumes "\<forall>c\<in>set key. isKeyPart c"
  shows "\<not> startsWith (key @ 61 # rest) (js ''export '')"
proof
  assume "startsWith (key @ 61 # rest) (js ''export '')"
  then have e: "take 7 (key @ 61 # rest) = [101, 120, 112, 111, 114, 116, 32]"
    unfolding startsWith_def js_export by (simp add: eval_nat_numeral)
  show False
  proof (cases "7 \<le> length key")
    case True
    with e have "take 7 key = [101, 120, 112, 111, 114, 116, 32]" by simp
    then have "32 \<in> set (take 7 key)" by simp
    then have "32 \<in> set key" by (rule in_set_takeD)
    with assms show False using isKeyPart_plain(4) by blast
  next
    case False
    then have "take 7 (key @ 61 # rest) = key @ 61 # take (6 - length key) rest"
      by (simp add: take_Cons' not_le)
    with e have "61 \<in> set [101, 120, 112, 111, 114, 116, 32::nat]"
      by (metis in_set_conv_decomp)
    then show False by simp
  qed
qed

lemma startsWith_unit: "startsWith v [c] \<longleftrightarrow> v \<noteq> [] \<and> hd v = c"
  by (cases v) (simp_all add: startsWith_def)

lemma endsWith_unit: "endsWith v [c] \<longleftrightarrow> v \<noteq> [] \<and> last v = c"
proof (cases v rule: rev_cases)
  case Nil
  then show ?thesis by (simp add: endsWith_def)
next
  case (snoc ys y)
  then show ?thesis by (simp add: endsWith_def)
qed

lemma parse_line_key_value:
  assumes "KEY_REGEX_test key" and "toLowerCase key \<notin> set DANGEROUS_KEYS"
    and "length key \<le> MAX_KEY_LENGTH"
    and "v \<noteq> []" and "\<not> isWhiteSpace (hd v)" and "\<not> isWhiteSpace (last v)"
    and "length (key @ 61 # v) \<le> MAX_LINE_LENGTH"
  shows "parse_line (key @ 61 # v) =
     Some (key, if (hd v = 34 \<and> last v = 34) \<or> (hd v = 39 \<and> last v = 39)
                then unescape (slice_1_minus_1 v) else v)"
proof -
  let ?l = "key @ 61 # v"
  from key_units[OF assms(1)] have ne: "key \<noteq> []" and parts: "\<forall>c\<in>set key. isKeyPart c"
    by simp_all
  from ne parts have hk: "isKeyPart (hd key)" and lk: "isKeyPart (last key)" by simp_all
  have hl: "hd ?l = hd key" using ne by simp
  have ll: "last ?l = last v" using assms(4) by simp
  have t: "trim ?l = ?l"
  proof (rule trim_id)
    show "?l \<noteq> []" by simp
    show "\<not> isWhiteSpace (hd ?l)" unfolding hl by (rule isKeyPart_plain(1)[OF hk])
    show "\<not> isWhiteSpace (last ?l)" unfolding ll by (rule assms(6))
  qed
  have c: "\<not> startsWith ?l [35]"
    using isKeyPart_plain(3)[OF hk] ne by (simp add: startsWith_unit)
  have x: "\<not> startsWith ?l (js ''export '')" using parts by (rule not_export)
  have "61 \<notin> set key" using parts isKeyPart_plain(2) by blast
  then have i: "indexOf 61 ?l = Some (length key)" by (rule indexOf_append)
  have tk: "trim key = key"
    using ne isKeyPart_plain(1)[OF hk] isKeyPart_plain(1)[OF lk] by (rule trim_id)
  have tv: "trim v = v" using assms(4,5,6) by (rule trim_id)
  have len: "\<not> MAX_LINE_LENGTH < length ?l" using assms(7) by simp
  have klen: "\<not> MAX_KEY_LENGTH < length key" using assms(3) by simp
  show ?thesis
    unfolding parse_line_def t Let_def
    using c x len klen ne assms(1,2,4)
    by (simp add: i tk tv startsWith_unit endsWith_unit)
qed

lemma plain_value:
  assumes "\<not> needsQuoting s"
  shows "s \<noteq> []" and "\<forall>c\<in>set s. \<not> isWhiteSpace c \<and> c \<noteq> 34 \<and> c \<noteq> 39 \<and> c \<noteq> 10"
  using assms by (auto simp: needsQuoting_def list_ex_iff)

lemma parse_line_env_line:
  assumes "KEY_REGEX_test key" and "toLowerCase key \<notin> set DANGEROUS_KEYS"
    and "length key \<le> MAX_KEY_LENGTH"
    and "length (env_line key s) \<le> MAX_LINE_LENGTH"
    and "unescape (escape s) = s"
  shows "parse_line (env_line key s) = Some (key, s)"
proof (cases "needsQuoting s")
  case True
  let ?v = "34 # escape s @ [34]"
  have e: "env_line key s = key @ 61 # ?v" using True by (simp add: env_line_def)
  have w: "\<not> isWhiteSpace 34" by (simp add: isWhiteSpace_def)
  have "parse_line (key @ 61 # ?v) =
     Some (key, if (hd ?v = 34 \<and> last ?v = 34) \<or> (hd ?v = 39 \<and> last ?v = 39)
                then unescape (slice_1_minus_1 ?v) else ?v)"
    using assms(1,2,3) assms(4)[unfolded e] w by (intro parse_line_key_value) simp_all
  then show ?thesis unfolding e by (simp add: slice_1_minus_1_def assms(5))
next
  case False
  have e: "env_line key s = key @ 61 # s" using False by (simp add: env_line_def)
  from plain_value[OF False] have ne: "s \<noteq> []"
    and u: "\<forall>c\<in>set s. \<not> isWhiteSpace c \<and> c \<noteq> 34 \<and> c \<noteq> 39 \<and> c \<noteq> 10" by simp_all
  from ne u have h: "\<not> isWhiteSpace (hd s)" "hd s \<noteq> 34" "hd s \<noteq> 39"
    and l: "\<not> isWhiteSpace (last s)" by simp_all
  have "parse_line (key @ 61 # s) =
     Some (key, if (hd s = 34 \<and> last s = 34) \<or> (hd s = 39 \<and> last s = 39)
                then unescape (slice_1_minus_1 s) else s)"
    using assms(1,2,3) ne h(1) l assms(4)[unfolded e] by (rule parse_line_key_value)
  then show ?thesis unfolding e using h by simp
qed

lemma env_line_no_line_feed:
  assumes "KEY_REGEX_test key"
  shows "10 \<notin> set (env_line key s)"
proof -
  from key_units[OF assms] have k: "10 \<notin> set key" using isKeyPart_plain(5) by blast
  show ?thesis
  proof (cases "needsQuoting s")
    case True
    then show ?thesis using k by (simp add: env_line_def escape_no_line_feed)
  next
    case False
    from plain_value(2)[OF False] have "10 \<notin> set s" by blast
    with False k show ?thesis by (simp add: env_line_def)
  qed
qed

lemma env_line_first:
  assumes "KEY_REGEX_test key"
  shows "env_line key s \<noteq> []" and "hd (env_line key s) \<noteq> 65279"
proof -
  from key_units[OF assms] have ne: "key \<noteq> []" and "isKeyPart (hd key)" by simp_all
  then have "hd key \<noteq> 65279" using isKeyPart_plain(6) by blast
  with ne show "env_line key s \<noteq> []" and "hd (env_line key s) \<noteq> 65279"
    by (simp_all add: env_line_def)
qed

subsection \<open>The whole file\<close>

lemma split_from_line:
  "sep \<notin> set l \<Longrightarrow> split_from sep piece (l @ sep # rest) = (rev piece @ l) # split_from sep [] rest"
  by (induction l arbitrary: piece) auto

lemma split_lines:
  "\<forall>l\<in>set ls. 10 \<notin> set l \<Longrightarrow> split 10 (concat (map (\<lambda>l. l @ [10]) ls)) = ls @ [[]]"
proof (induction ls)
  case Nil
  then show ?case by (simp add: split_def)
next
  case (Cons l ls)
  then have "10 \<notin> set l" and ih: "split_from 10 [] (concat (map (\<lambda>l. l @ [10]) ls)) = ls @ [[]]"
    by (simp_all add: split_def)
  then show ?case by (simp add: split_def split_from_line)
qed

lemma join_lines: "ls \<noteq> [] \<Longrightarrow> join ls [10] @ [10] = concat (map (\<lambda>l. l @ [10]) ls)"
  by (induction ls "[10::nat]" rule: join.induct) simp_all

lemma map_filter_serialize_entry:
  assumes "\<forall>(key, v)\<in>set env. KEY_REGEX_test key \<and> toLowerCase key \<notin> set DANGEROUS_KEYS"
  shows "List.map_filter serialize_entry (map (\<lambda>(key, v). (key, Some v)) env)
       = map (\<lambda>(key, v). env_line key v) env"
  using assms
  by (induction env) (auto simp: serialize_entry_def)

lemma update_fresh: "key \<notin> fst ` set al \<Longrightarrow> AList.update key v al = al @ [(key, v)]"
  by (induction al) auto

lemma fold_lines:
  assumes "distinct (map fst env)" and "fst ` set acc \<inter> fst ` set env = {}"
    and "\<forall>(key, v)\<in>set env. parse_line (env_line key v) = Some (key, v)"
  shows "fold (\<lambda>line env. case parse_line line of None \<Rightarrow> env
                            | Some (key, v) \<Rightarrow> AList.update key v env)
              (map (\<lambda>(key, v). env_line key v) env) acc = acc @ env"
  using assms
proof (induction env arbitrary: acc)
  case Nil
  then show ?case by simp
next
  case (Cons e env)
  obtain key v where e: "e = (key, v)" by (cases e)
  from Cons.prems(2) e have fresh: "key \<notin> fst ` set acc" by auto
  from Cons.prems(3) e have p: "parse_line (env_line key v) = Some (key, v)" by simp
  have d: "distinct (map fst env)" using Cons.prems(1) by simp
  have "fst ` set (acc @ [(key, v)]) \<inter> fst ` set env = {}"
    using Cons.prems(1,2) e by auto
  from Cons.IH[OF d this] Cons.prems(3)
  show ?case by (simp add: e p update_fresh[OF fresh])
qed

lemma parseEnvFile_lines:
  assumes "ls \<noteq> []" and "hd ls \<noteq> []" and "hd (hd ls) \<noteq> 65279" and "\<forall>l\<in>set ls. 10 \<notin> set l"
  shows "parseEnvFile (concat (map (\<lambda>l. l @ [10]) ls)) =
     fold (\<lambda>line env. case parse_line line of None \<Rightarrow> env
                            | Some (key, v) \<Rightarrow> AList.update key v env) ls []"
proof -
  obtain l ls' where ls: "ls = l # ls'" using assms(1) by (cases ls) simp_all
  obtain c cs where l: "l = c # cs" using assms(2) ls by (cases l) simp_all
  have c: "c \<noteq> 65279" using assms(3) ls l by simp
  have s: "split 10 (concat (map (\<lambda>l. l @ [10]) ls)) = ls @ [[]]"
    using assms(4) by (rule split_lines)
  have "parseEnvFile (concat (map (\<lambda>l. l @ [10]) ls)) =
     fold (\<lambda>line env. case parse_line line of None \<Rightarrow> env
                            | Some (key, v) \<Rightarrow> AList.update key v env) (ls @ [[]]) []"
    unfolding parseEnvFile_def s[symmetric] using c by (simp add: ls l)
  then show ?thesis by (simp add: parse_line_Nil)
qed

lemma parseEnvFile_line_feed: "parseEnvFile [10] = []"
  by (simp add: parseEnvFile_def split_def parse_line_Nil)


lemmas env_eval_defs =
  js_def KEY_REGEX_test_def isKeyStart_def isKeyPart_def toLowerCase_def DANGEROUS_KEYS_def
  MAX_KEY_LENGTH_def MAX_LINE_LENGTH_def env_line_def needsQuoting_def escape_def
  replace_unit_def isWhiteSpace_def serialize_entry_def

text \<open>
  A backslash in front of \<^verbatim>\<open>n\<close>: the serializer doubles the backslash, and the parser,
  which replaces the doubled backslash last, reads the second backslash and the \<^verbatim>\<open>n\<close> as a
  line feed.
\<close>

lemma serializeEnvFile_backslash_n:
  "serializeEnvFile [(js ''A'', Some [92, 110])] = [65, 61, 34, 92, 92, 110, 34, 10]"
  by (simp add: serializeEnvFile_def env_eval_defs)

lemma parseEnvFile_backslash_n:
  "parseEnvFile [65, 61, 34, 92, 92, 110, 34, 10] = [(js ''A'', [92, 10])]"
proof -
  have "parse_line ([65] @ 61 # [34, 92, 92, 110, 34]) = Some ([65], [92, 10])"
    by (subst parse_line_key_value) (simp_all add: env_eval_defs slice_1_minus_1_def unescape_def)
  then have p: "parse_line [65, 61, 34, 92, 92, 110, 34] = Some ([65], [92, 10])" by simp
  have "parseEnvFile (concat (map (\<lambda>l. l @ [10]) [[65, 61, 34, 92, 92, 110, 34]])) =
     fold (\<lambda>line env. case parse_line line of None \<Rightarrow> env
                            | Some (key, v) \<Rightarrow> AList.update key v env)
          [[65, 61, 34, 92, 92, 110, 34]] []"
    by (rule parseEnvFile_lines) simp_all
  then show ?thesis by (simp add: p js_def)
qed


text \<open>
  Both functions compare the lower-cased key with the three dangerous names: the key
  \<^verbatim>\<open>Constructor\<close> is a valid identifier and none of the three, but the serializer writes no
  line for it.
\<close>

lemma serializeEnvFile_skips_capitalised_name:
  "KEY_REGEX_test (js ''Constructor'') \<and> js ''Constructor'' \<notin> set DANGEROUS_KEYS
   \<and> parseEnvFile (serializeEnvFile [(js ''Constructor'', Some (js ''x''))]) = []"
proof -
  have "serializeEnvFile [(js ''Constructor'', Some (js ''x''))] = [10]"
    by (simp add: serializeEnvFile_def env_eval_defs)
  then show ?thesis by (simp add: parseEnvFile_line_feed env_eval_defs)
qed

text \<open>A line of more than \<^verbatim>\<open>MAX_LINE_LENGTH\<close> code units is skipped by the parser.\<close>

lemma plain_replicate: "0 < n \<Longrightarrow> \<not> needsQuoting (replicate n 97)"
  by (simp add: needsQuoting_def list_ex_iff isWhiteSpace_def)

lemma parse_line_too_long:
  assumes "MAX_LINE_LENGTH \<le> n"
  shows "parse_line (65 # 61 # replicate n 97) = None"
proof -
  let ?l = "65 # 61 # replicate n 97"
  have n: "0 < n" using assms by (simp add: MAX_LINE_LENGTH_def)
  have "last ?l = 97" using n by simp
  then have "trim ?l = ?l" by (intro trim_id) (simp_all add: isWhiteSpace_def)
  moreover have "MAX_LINE_LENGTH < length ?l" using assms by simp
  ultimately show ?thesis by (simp add: parse_line_def startsWith_unit)
qed

lemma long_value_lost:
  assumes "MAX_LINE_LENGTH \<le> n"
  shows "parseEnvFile (serializeEnvFile [(js ''A'', Some (replicate n 97))]) = []"
proof -
  let ?l = "65 # 61 # replicate n 97"
  have n: "0 < n" using assms by (simp add: MAX_LINE_LENGTH_def)
  have "serializeEnvFile [(js ''A'', Some (replicate n 97))] = ?l @ [10]"
    using plain_replicate[OF n]
    by (simp add: serializeEnvFile_def serialize_entry_def env_line_def js_def KEY_REGEX_test_def
          isKeyStart_def toLowerCase_def DANGEROUS_KEYS_def)
  moreover have "parseEnvFile (concat (map (\<lambda>l. l @ [10]) [?l])) =
     fold (\<lambda>line env. case parse_line line of None \<Rightarrow> env
                            | Some (key, v) \<Rightarrow> AList.update key v env) [?l] []"
    by (rule parseEnvFile_lines) simp_all
  ultimately show ?thesis by (simp add: parse_line_too_long[OF assms])
qed


text \<open>
  C10 (as stated).  For every object whose keys are valid identifiers other than
  \<^verbatim>\<open>__proto__\<close>, \<^verbatim>\<open>constructor\<close> and \<^verbatim>\<open>prototype\<close> and whose values are strings, parsing
  the serialized form yields the same pairs.  It fails for the object with the one key
  \<^verbatim>\<open>A\<close> whose value is the letter \<^verbatim>\<open>a\<close> ten thousand times: the serializer writes the line
  \<^verbatim>\<open>A=aaa...\<close> of 10002 code units, which the parser skips as longer than
  \<^verbatim>\<open>MAX_LINE_LENGTH\<close>, and returns the empty object.
\<close>

theorem parseEnvFile_skips_long_line_counterexample:
  "KEY_REGEX_test (js ''A'') \<and> toLowerCase (js ''A'') \<notin> set DANGEROUS_KEYS
   \<and> parseEnvFile (serializeEnvFile [(js ''A'', Some (replicate 10000 97))]) = []"
proof -
  have "parseEnvFile (serializeEnvFile [(js ''A'', Some (replicate 10000 97))]) = []"
    by (rule long_value_lost) (simp add: MAX_LINE_LENGTH_def)
  moreover have "KEY_REGEX_test (js ''A'') \<and> toLowerCase (js ''A'') \<notin> set DANGEROUS_KEYS"
    by (simp add: env_eval_defs)
  ultimately show ?thesis by blast
qed

text \<open>
  C10 (amended).  Let \<open>env\<close> list the entries of an object with string values, in the order
  of \<^verbatim>\<open>Object.keys\<close>, such that every key is a valid identifier of at most
  \<^verbatim>\<open>MAX_KEY_LENGTH\<close> code units whose lower-cased form is none of the three dangerous
  names, every serialized line has at most \<^verbatim>\<open>MAX_LINE_LENGTH\<close> code units, and in no value
  a backslash is immediately followed by \<^verbatim>\<open>n\<close>, \<^verbatim>\<open>r\<close> or \<^verbatim>\<open>t\<close> (code units 110, 114 and
  116).  Then parsing the serialized form yields exactly the entries of \<open>env\<close>, in the
  same order.
\<close>

theorem parseEnvFile_serializeEnvFile:
  assumes "distinct (map fst env)"
    and "\<forall>(key, v)\<in>set env.
           KEY_REGEX_test key \<and> toLowerCase key \<notin> set DANGEROUS_KEYS
           \<and> length key \<le> MAX_KEY_LENGTH \<and> length (env_line key v) \<le> MAX_LINE_LENGTH
           \<and> (\<forall>b\<in>{110, 114, 116}. (92, b) \<notin> set (zip v (tl v)))"
  shows "parseEnvFile (serializeEnvFile (map (\<lambda>(key, v). (key, Some v)) env)) = env"
proof (cases env)
  case Nil
  then show ?thesis by (simp add: serializeEnvFile_def parseEnvFile_line_feed)
next
  case (Cons e env')
  let ?ls = "map (\<lambda>(key, v). env_line key v) env"
  obtain key v where e: "e = (key, v)" by (cases e)
  have keys: "\<forall>(key, v)\<in>set env. KEY_REGEX_test key \<and> toLowerCase key \<notin> set DANGEROUS_KEYS"
    using assms(2) by auto
  have m: "List.map_filter serialize_entry (map (\<lambda>(key, v). (key, Some v)) env) = ?ls"
    using keys by (rule map_filter_serialize_entry)
  have ne: "?ls \<noteq> []" using Cons by simp
  have s: "serializeEnvFile (map (\<lambda>(key, v). (key, Some v)) env) = concat (map (\<lambda>l. l @ [10]) ?ls)"
    unfolding serializeEnvFile_def m using ne by (rule join_lines)
  have k: "KEY_REGEX_test key" using keys Cons e by simp
  have h: "hd ?ls = env_line key v" using Cons e by simp
  have nl: "\<forall>l\<in>set ?ls. 10 \<notin> set l" using keys env_line_no_line_feed by auto
  have p: "\<forall>(key, v)\<in>set env. parse_line (env_line key v) = Some (key, v)"
    using assms(2) by (auto intro!: parse_line_env_line unescape_escape)
  have "parseEnvFile (concat (map (\<lambda>l. l @ [10]) ?ls)) =
     fold (\<lambda>line env. case parse_line line of None \<Rightarrow> env
                            | Some (key, v) \<Rightarrow> AList.update key v env) ?ls []"
    using ne env_line_first[OF k, of v] nl unfolding h[symmetric] by (intro parseEnvFile_lines)
  also have "\<dots> = [] @ env" using assms(1) _ p by (rule fold_lines) simp
  finally show ?thesis unfolding s by simp
qed

theorem parseEnvFile_serializeEnvFile_witness:
  "parseEnvFile (serializeEnvFile
      [(js ''PORT'', Some (js ''8080'')), (js ''APP_NAME'', Some (js ''my app'')),
       (js ''EMPTY'', Some []),
       (js ''WIN_PATH'', Some [67, 58, 92, 100, 105, 114, 32, 34, 120, 34])])
   = [(js ''PORT'', js ''8080''), (js ''APP_NAME'', js ''my app''), (js ''EMPTY'', []),
      (js ''WIN_PATH'', [67, 58, 92, 100, 105, 114, 32, 34, 120, 34])]"
  using parseEnvFile_serializeEnvFile
    [of "[(js ''PORT'', js ''8080''), (js ''APP_NAME'', js ''my app''), (js ''EMPTY'', []),
          (js ''WIN_PATH'', [67, 58, 92, 100, 105, 114, 32, 34, 120, 34])]"]
  by (simp add: env_eval_defs)
end
